theory Spec2Isabelle
  imports Complex_Main "HOL-Library.Word"
begin

section \<open>JavaScript values used by the Reports page\<close>

text \<open>
  The Reports page (\<^verbatim>\<open>src/pages/Reports.tsx\<close>, \<^verbatim>\<open>fetchReportStats\<close>) aggregates the rows of
  the \<^verbatim>\<open>reports\<close> table on the client. A row's numeric field is a number or \<^verbatim>\<open>null\<close>, which
  is what a row fetched with \<^verbatim>\<open>select('*')\<close> carries for a missing value; \<open>Undefined\<close> is the
  value read from an object that has no such property at all. A JavaScript number is
  modelled by an exact rational or \<^verbatim>\<open>NaN\<close> (binary floating-point rounding is not
  modelled). A \<^verbatim>\<open>Date\<close> is its time value in milliseconds since the epoch; \<open>None\<close> is
  \<^verbatim>\<open>Invalid Date\<close>.
\<close>

datatype jsval = Undefined | Null | Number rat

datatype jsnum = NaN | Num rat

datatype error = RangeError

type_synonym jsdate = "int option"

text \<open>
  A JavaScript string is a sequence of 16-bit code units. \<open>str\<close> gives the code units of
  a text written in Latin-1, for the literals of the source and of the examples.
\<close>

type_synonym jsstring = "16 word list"

definition str :: "string \<Rightarrow> jsstring" where
  "str s = map of_char s"

text \<open>
  A row of \<^verbatim>\<open>reports\<close>. \<open>date\<close> holds the result of \<^verbatim>\<open>new Date(report.date)\<close>, the only
  way the page reads the column; \<open>None\<close> for a text that does not parse. A text column
  that is \<^verbatim>\<open>null\<close> or absent is \<open>None\<close>. The status is only ever compared with literals of
  the source.
\<close>

record report =
  date :: jsdate
  time_spent :: jsval
  status :: "string option"
  tags :: "jsstring option"
  skills_tools :: "jsstring option"

text \<open>\<^verbatim>\<open>x / 60\<close> on a raw field: \<^verbatim>\<open>undefined\<close> converts to \<^verbatim>\<open>NaN\<close>, \<^verbatim>\<open>null\<close> to \<^verbatim>\<open>0\<close>.\<close>

fun div60 :: "jsval \<Rightarrow> jsnum" where
  "div60 Undefined = NaN"
| "div60 Null = Num 0"
| "div60 (Number x) = Num (x / 60)"

fun jsadd :: "jsnum \<Rightarrow> jsnum \<Rightarrow> jsnum" where
  "jsadd (Num a) (Num b) = Num (a + b)"
| "jsadd _ _ = NaN"

text \<open>\<^verbatim>\<open>x || 0\<close> on a raw field: \<^verbatim>\<open>undefined\<close>, \<^verbatim>\<open>null\<close> and \<^verbatim>\<open>0\<close> are falsy; any other
  number, negative ones included, is kept.\<close>

fun or0 :: "jsval \<Rightarrow> rat" where
  "or0 Undefined = 0"
| "or0 Null = 0"
| "or0 (Number x) = x"

text \<open>
  \<^verbatim>\<open>parseFloat(x.toFixed(f))\<close>: the multiple of \<open>10\<^sup>-\<^sup>f\<close> nearest to \<open>x\<close>, the larger one
  in magnitude on a tie (\<^verbatim>\<open>toFixed\<close> works on the absolute value and restores the sign).
\<close>

definition toFixed :: "nat \<Rightarrow> rat \<Rightarrow> rat" where
  "toFixed f x =
     (if x < 0 then - (of_int \<lfloor>(- x) * 10 ^ f + 1 / 2\<rfloor> / 10 ^ f)
      else of_int \<lfloor>x * 10 ^ f + 1 / 2\<rfloor> / 10 ^ f)"

fun toFixedNum :: "nat \<Rightarrow> jsnum \<Rightarrow> jsnum" where
  "toFixedNum f NaN = NaN"
| "toFixedNum f (Num x) = Num (toFixed f x)"

section \<open>Overall statistics (lines 112-134)\<close>

text \<open>\<^verbatim>\<open>reports.reduce((sum, report) => sum + (report.time_spent / 60), 0)\<close>\<close>

definition totalHoursSum :: "report list \<Rightarrow> jsnum" where
  "totalHoursSum reports = foldl (\<lambda>sum report. jsadd sum (div60 (time_spent report))) (Num 0) reports"

definition statsTotalHours :: "report list \<Rightarrow> jsnum" where
  "statsTotalHours reports = toFixedNum 1 (totalHoursSum reports)"

definition completed :: "report list \<Rightarrow> nat" where
  "completed reports = length (filter (\<lambda>r. status r = Some ''completed'') reports)"

definition pending :: "report list \<Rightarrow> nat" where
  "pending reports = length (filter (\<lambda>r. status r = Some ''pending'') reports)"

definition inProgress :: "report list \<Rightarrow> nat" where
  "inProgress reports =
     length (filter (\<lambda>r. status r = Some ''in progress'' \<or> status r = Some ''in_progress''
                          \<or> status r = Some ''inprogress'') reports)"

definition totalEntries :: "report list \<Rightarrow> nat" where
  "totalEntries reports = length reports"

section \<open>Tag and tool tallies (lines 136-150)\<close>

text \<open>
  \<^verbatim>\<open>String.prototype.split(',')\<close>: the pieces between commas, empty pieces kept; the empty
  string splits into one empty piece.
\<close>

fun split :: "'a \<Rightarrow> 'a list \<Rightarrow> 'a list list" where
  "split c [] = [[]]"
| "split c (x # xs) =
     (if x = c then [] # split c xs
      else (case split c xs of [] \<Rightarrow> [[x]] | p # ps \<Rightarrow> (x # p) # ps))"

text \<open>
  \<^verbatim>\<open>String.prototype.trim\<close> strips ECMAScript's white space and line terminators: TAB, LF,
  VT, FF, CR, SPACE, NO-BREAK SPACE, U+1680, U+2000 to U+200A, U+2028, U+2029, U+202F,
  U+205F, U+3000 and U+FEFF.
\<close>

definition isWhiteSpace :: "16 word \<Rightarrow> bool" where
  "isWhiteSpace c =
     (c \<in> {0x09, 0x0A, 0x0B, 0x0C, 0x0D, 0x20, 0xA0, 0x1680, 0x2028, 0x2029, 0x202F, 0x205F,
            0x3000, 0xFEFF}
      \<or> (0x2000 \<le> c \<and> c \<le> 0x200A))"

definition trim :: "jsstring \<Rightarrow> jsstring" where
  "trim s = rev (dropWhile isWhiteSpace (rev (dropWhile isWhiteSpace s)))"

text \<open>
  The tally objects \<^verbatim>\<open>newStats.tags\<close> and \<^verbatim>\<open>newStats.tools\<close> are plain objects created by
  \<^verbatim>\<open>{}\<close>: their prototype is \<^verbatim>\<open>Object.prototype\<close>. An object is the list of its own
  properties in order of creation. The values that \<^verbatim>\<open>obj[tag]\<close> can give are \<^verbatim>\<open>undefined\<close>,
  a number, a string, a function inherited from \<^verbatim>\<open>Object.prototype\<close> (kept by its property
  name) and, for \<^verbatim>\<open>__proto__\<close>, \<^verbatim>\<open>Object.prototype\<close> itself.
\<close>

datatype propval = PUndefined | PNumber nat | PString jsstring | PFunction jsstring | PObjectPrototype

type_synonym object = "(jsstring \<times> propval) list"

text \<open>The function-valued properties of \<^verbatim>\<open>Object.prototype\<close>, as the standard and its Annex B
  define them; \<^verbatim>\<open>__proto__\<close> is its one accessor property.\<close>

definition objectPrototypeFunctions :: "jsstring list" where
  "objectPrototypeFunctions =
     map str [''constructor'', ''__defineGetter__'', ''__defineSetter__'', ''hasOwnProperty'',
              ''__lookupGetter__'', ''__lookupSetter__'', ''isPrototypeOf'',
              ''propertyIsEnumerable'', ''toString'', ''valueOf'', ''toLocaleString'']"

text \<open>\<^verbatim>\<open>obj[k]\<close>: the own property, or else what \<^verbatim>\<open>Object.prototype\<close> has under that name.\<close>

definition getProp :: "object \<Rightarrow> jsstring \<Rightarrow> propval" where
  "getProp obj k =
     (case map_of obj k of
        Some v \<Rightarrow> v
      | None \<Rightarrow> if k = str ''__proto__'' then PObjectPrototype
                else if k \<in> set objectPrototypeFunctions then PFunction k
                else PUndefined)"

text \<open>
  The text a built-in function converts to. The standard fixes it up to white space; this
  is the text of V8. \<^verbatim>\<open>Object.prototype.constructor\<close> is the function \<^verbatim>\<open>Object\<close>, every other
  one is named as its property.
\<close>

definition nativeSource :: "jsstring \<Rightarrow> jsstring" where
  "nativeSource k =
     str ''function '' @ (if k = str ''constructor'' then str ''Object'' else k)
       @ str ''() { [native code] }''"

text \<open>
  \<^verbatim>\<open>(v || 0) + 1\<close>: \<^verbatim>\<open>undefined\<close>, \<^verbatim>\<open>0\<close> and the empty string are falsy and give \<open>1\<close>; a number
  is incremented; to anything else \<^verbatim>\<open>+\<close> appends the text \<^verbatim>\<open>1\<close>, after converting a
  function to its source text and \<^verbatim>\<open>Object.prototype\<close> to \<^verbatim>\<open>[object Object]\<close>.
\<close>

fun orZeroPlusOne :: "propval \<Rightarrow> propval" where
  "orZeroPlusOne PUndefined = PNumber 1"
| "orZeroPlusOne (PNumber n) = PNumber (n + 1)"
| "orZeroPlusOne (PString s) = (if s = [] then PNumber 1 else PString (s @ str ''1''))"
| "orZeroPlusOne (PFunction k) = PString (nativeSource k @ str ''1'')"
| "orZeroPlusOne PObjectPrototype = PString (str ''[object Object]1'')"

text \<open>Writing an own property: an existing one keeps its place, a new one is created last.\<close>

fun defineOwn :: "jsstring \<Rightarrow> propval \<Rightarrow> object \<Rightarrow> object" where
  "defineOwn k v [] = [(k, v)]"
| "defineOwn k v ((k', v') # kvs) = (if k = k' then (k, v) # kvs else (k', v') # defineOwn k v kvs)"

text \<open>
  \<^verbatim>\<open>obj[k] = v\<close> for a number or a string \<open>v\<close>, the only values assigned here. The
  assignment to \<^verbatim>\<open>__proto__\<close> runs the setter inherited from \<^verbatim>\<open>Object.prototype\<close>, which
  ignores a value that is neither an object nor \<^verbatim>\<open>null\<close>: no property is created.
\<close>

definition setProp :: "jsstring \<Rightarrow> propval \<Rightarrow> object \<Rightarrow> object" where
  "setProp k v obj = (if k = str ''__proto__'' then obj else defineOwn k v obj)"

text \<open>\<^verbatim>\<open>obj[tag] = (obj[tag] || 0) + 1\<close>\<close>

definition increment :: "object \<Rightarrow> jsstring \<Rightarrow> object" where
  "increment obj tag = setProp tag (orZeroPlusOne (getProp obj tag)) obj"

text \<open>\<^verbatim>\<open>if (field) { field.split(',').map(t => t.trim()).forEach(...) }\<close>: a field that is
  \<^verbatim>\<open>null\<close>, absent or the empty string is skipped.\<close>

definition tallyField :: "object \<Rightarrow> jsstring option \<Rightarrow> object" where
  "tallyField obj field =
     (case field of
        None \<Rightarrow> obj
      | Some s \<Rightarrow> if s = [] then obj else foldl increment obj (map trim (split 0x2C s)))"

definition tallyTags :: "report list \<Rightarrow> object" where
  "tallyTags reports = foldl (\<lambda>obj report. tallyField obj (tags report)) [] reports"

definition tallyTools :: "report list \<Rightarrow> object" where
  "tallyTools reports = foldl (\<lambda>obj report. tallyField obj (skills_tools report)) [] reports"

text \<open>
  \<^verbatim>\<open>Object.entries\<close> (lines 466 and 674) lists the own properties whose key is an array
  index (the decimal text, without leading zeros, of an integer from 0 to \<open>2\<^sup>3\<^sup>2 - 2\<close>) in
  ascending numeric order, then the others in order of creation.
\<close>

definition isDigit :: "16 word \<Rightarrow> bool" where
  "isDigit c = (0x30 \<le> c \<and> c \<le> 0x39)"

definition digitsValue :: "jsstring \<Rightarrow> int" where
  "digitsValue s = foldl (\<lambda>n c. 10 * n + (uint c - 48)) 0 s"

definition isArrayIndex :: "jsstring \<Rightarrow> bool" where
  "isArrayIndex s =
     (list_all isDigit s
      \<and> (case s of [] \<Rightarrow> False | c # cs \<Rightarrow> 0x30 < c \<or> cs = [])
      \<and> digitsValue s < 2 ^ 32 - 1)"

definition ownKeys :: "object \<Rightarrow> jsstring list" where
  "ownKeys obj =
     sort_key digitsValue (filter isArrayIndex (map fst obj))
       @ filter (\<lambda>k. \<not> isArrayIndex k) (map fst obj)"

definition entries :: "object \<Rightarrow> (jsstring \<times> propval) list" where
  "entries obj = map (\<lambda>k. (k, getProp obj k)) (ownKeys obj)"

section \<open>Dates\<close>

text \<open>
  The date functions are those of the JavaScript \<^verbatim>\<open>Date\<close> object and of the date-fns
  library, which work in the host's local time. The host's zone is the parameter \<open>z\<close>: the
  number of milliseconds local time is ahead of UTC, taken as constant (daylight-saving
  shifts are not modelled). A date-only text such as \<^verbatim>\<open>2024-01-20\<close> is parsed by
  \<^verbatim>\<open>new Date\<close> as midnight UTC.
\<close>

definition msPerDay :: int where
  "msPerDay = 86400000"

definition localDay :: "int \<Rightarrow> int \<Rightarrow> int" where
  "localDay z t = (t + z) div msPerDay"

definition timeInDay :: "int \<Rightarrow> int \<Rightarrow> int" where
  "timeInDay z t = (t + z) mod msPerDay"

definition atLocal :: "int \<Rightarrow> int \<Rightarrow> int \<Rightarrow> int" where
  "atLocal z d ms = d * msPerDay + ms - z"

text \<open>\<^verbatim>\<open>getDay\<close>: 0 is Sunday; day 0 (1 January 1970) was a Thursday.\<close>

definition getDay :: "int \<Rightarrow> int \<Rightarrow> int" where
  "getDay z t = (localDay z t + 4) mod 7"

text \<open>The proleptic Gregorian calendar: a day number to (year, month 1..12, day of month),
  and back. Years are counted from 1 March within the 400-year cycle, so that the leap day
  is the last day of its year.\<close>

definition marchYearDay :: "int \<Rightarrow> int \<times> int" where
  "marchYearDay n =
     (let n' = n + 719468;
          era = n' div 146097;
          doe = n' mod 146097;
          yoe = (doe - doe div 1460 + doe div 36524 - doe div 146096) div 365
      in (yoe + era * 400, doe - (365 * yoe + yoe div 4 - yoe div 100)))"

definition civilFromDays :: "int \<Rightarrow> int \<times> int \<times> int" where
  "civilFromDays n =
     (let y = fst (marchYearDay n);
          doy = snd (marchYearDay n);
          mp = (5 * doy + 2) div 153;
          d = doy - (153 * mp + 2) div 5 + 1;
          m = (if mp < 10 then mp + 3 else mp - 9)
      in (if m \<le> 2 then y + 1 else y, m, d))"

definition daysFromCivil :: "int \<Rightarrow> int \<Rightarrow> int \<Rightarrow> int" where
  "daysFromCivil y m d =
     (let y' = (if m \<le> 2 then y - 1 else y);
          era = y' div 400;
          yoe = y' mod 400;
          doy = (153 * (if m > 2 then m - 3 else m + 9) + 2) div 5 + d - 1;
          doe = yoe * 365 + yoe div 4 - yoe div 100 + doy
      in era * 146097 + doe - 719468)"

definition getFullYear :: "int \<Rightarrow> int \<Rightarrow> int" where
  "getFullYear z t = fst (civilFromDays (localDay z t))"

text \<open>\<^verbatim>\<open>getMonth\<close>: 0 is January.\<close>

definition getMonth :: "int \<Rightarrow> int \<Rightarrow> int" where
  "getMonth z t = fst (snd (civilFromDays (localDay z t))) - 1"

definition getDate :: "int \<Rightarrow> int \<Rightarrow> int" where
  "getDate z t = snd (snd (civilFromDays (localDay z t)))"

text \<open>ECMAScript's \<^verbatim>\<open>MakeDay(year, month, date)\<close>: months outside 0..11 carry into the year,
  days outside the month carry into the neighbouring months.\<close>

definition makeDay :: "int \<Rightarrow> int \<Rightarrow> int \<Rightarrow> int" where
  "makeDay y m d = daysFromCivil (y + m div 12) (m mod 12 + 1) 1 + d - 1"

definition isLeapYear :: "int \<Rightarrow> bool" where
  "isLeapYear y = (y mod 4 = 0 \<and> (y mod 100 \<noteq> 0 \<or> y mod 400 = 0))"

definition daysInMonth :: "int \<Rightarrow> int \<Rightarrow> int" where
  "daysInMonth y m =
     (if m = 1 then (if isLeapYear y then 29 else 28)
      else if m = 3 \<or> m = 5 \<or> m = 8 \<or> m = 10 then 30 else 31)"

text \<open>\<^verbatim>\<open>setDate(k)\<close>, \<^verbatim>\<open>setMonth(m, d)\<close> and \<^verbatim>\<open>setFullYear(y, m, d)\<close> keep the local time of
  day. The day of the month counts from the first of the month, so \<^verbatim>\<open>setDate\<close> moves by
  the difference.\<close>

definition setDate :: "int \<Rightarrow> int \<Rightarrow> int \<Rightarrow> int" where
  "setDate z t k = atLocal z (localDay z t - getDate z t + k) (timeInDay z t)"

definition setFullYear :: "int \<Rightarrow> int \<Rightarrow> int \<Rightarrow> int \<Rightarrow> int \<Rightarrow> int" where
  "setFullYear z t y m d = atLocal z (makeDay y m d) (timeInDay z t)"

definition setMonth :: "int \<Rightarrow> int \<Rightarrow> int \<Rightarrow> int \<Rightarrow> int" where
  "setMonth z t m d = setFullYear z t (getFullYear z t) m d"

text \<open>\<^verbatim>\<open>setHours(0, 0, 0, 0)\<close> and \<^verbatim>\<open>setHours(23, 59, 59, 999)\<close>\<close>

definition startOfDay :: "int \<Rightarrow> int \<Rightarrow> int" where
  "startOfDay z t = atLocal z (localDay z t) 0"

definition endOfDay :: "int \<Rightarrow> int \<Rightarrow> int" where
  "endOfDay z t = atLocal z (localDay z t) (msPerDay - 1)"

subsection \<open>date-fns: weeks\<close>

text \<open>\<^verbatim>\<open>startOfWeek(date, { weekStartsOn: 1 })\<close> and \<^verbatim>\<open>endOfWeek(date, { weekStartsOn: 1 })\<close>\<close>

definition startOfWeek :: "int \<Rightarrow> int \<Rightarrow> int" where
  "startOfWeek z t =
     (let day = getDay z t;
          diff = (if day < 1 then 7 else 0) + day - 1
      in startOfDay z (t - diff * msPerDay))"

definition endOfWeek :: "int \<Rightarrow> int \<Rightarrow> int" where
  "endOfWeek z t =
     (let day = getDay z t;
          diff = (if day < 1 then - 7 else 0) + 6 - (day - 1)
      in endOfDay z (t + diff * msPerDay))"

text \<open>\<^verbatim>\<open>addDays\<close> moves the local day of the month and keeps the time of day;
  \<^verbatim>\<open>addWeeks(date, n)\<close> is \<^verbatim>\<open>addDays(date, n * 7)\<close>.\<close>

definition addDays :: "int \<Rightarrow> int \<Rightarrow> int" where
  "addDays t amount = t + amount * msPerDay"

definition addWeeks :: "int \<Rightarrow> int \<Rightarrow> int" where
  "addWeeks t amount = addDays t (amount * 7)"

text \<open>\<^verbatim>\<open>Math.trunc(a / b)\<close> for a positive \<open>b\<close>.\<close>

definition truncDiv :: "int \<Rightarrow> int \<Rightarrow> int" where
  "truncDiv a b = (if a < 0 then - ((- a) div b) else a div b)"

text \<open>\<^verbatim>\<open>differenceInDays\<close>: the number of full days between two dates, negative when the
  first is the earlier; \<^verbatim>\<open>differenceInWeeks\<close> truncates a seventh of it.\<close>

definition differenceInDays :: "int \<Rightarrow> int \<Rightarrow> int" where
  "differenceInDays dateLeft dateRight = truncDiv (dateLeft - dateRight) msPerDay"

definition differenceInWeeks :: "int \<Rightarrow> int \<Rightarrow> int" where
  "differenceInWeeks dateLeft dateRight = truncDiv (differenceInDays dateLeft dateRight) 7"

text \<open>
  \<^verbatim>\<open>isWithinInterval\<close> and \<^verbatim>\<open>eachDayOfInterval\<close> as in date-fns 2, where an interval whose
  start is after its end raises \<^verbatim>\<open>RangeError\<close> (date-fns 3 and later raise nothing and
  agree with these on every interval that is in order). An \<^verbatim>\<open>Invalid Date\<close> is in no
  interval.
\<close>

definition isWithinInterval :: "jsdate \<Rightarrow> int \<Rightarrow> int \<Rightarrow> error + bool" where
  "isWithinInterval d start fin =
     (if \<not> start \<le> fin then Inl RangeError
      else Inr (case d of None \<Rightarrow> False | Some t \<Rightarrow> start \<le> t \<and> t \<le> fin))"

text \<open>The loop of \<^verbatim>\<open>eachDayOfInterval\<close>: \<^verbatim>\<open>while (currentDate.getTime() <= endTime)\<close>, each
  round moving to the next local midnight.\<close>

function daysLoop :: "int \<Rightarrow> int \<Rightarrow> int \<Rightarrow> int list" where
  "daysLoop z currentDate endTime =
     (if currentDate \<le> endTime
      then currentDate # daysLoop z (startOfDay z (addDays currentDate 1)) endTime
      else [])"
  by pat_completeness auto

lemma startOfDay_next_gt: "t < startOfDay z (addDays t 1)"
  unfolding startOfDay_def addDays_def atLocal_def localDay_def msPerDay_def
  by linarith

termination daysLoop
proof (relation "measure (\<lambda>(z, currentDate, endTime). nat (endTime + 1 - currentDate))")
  show "wf (measure (\<lambda>(z, currentDate, endTime). nat (endTime + 1 - currentDate)))"
    by simp
next
  fix z currentDate endTime :: int
  assume "currentDate \<le> endTime"
  with startOfDay_next_gt [of currentDate z]
  show "((z, startOfDay z (addDays currentDate 1), endTime), (z, currentDate, endTime))
          \<in> measure (\<lambda>(z, currentDate, endTime). nat (endTime + 1 - currentDate))"
    by simp
qed

declare daysLoop.simps [simp del]

definition eachDayOfInterval :: "int \<Rightarrow> int \<Rightarrow> int \<Rightarrow> error + int list" where
  "eachDayOfInterval z start fin =
     (if \<not> start \<le> fin then Inl RangeError else Inr (daysLoop z (startOfDay z start) fin))"

subsection \<open>date-fns: months\<close>

definition startOfMonth :: "int \<Rightarrow> int \<Rightarrow> int" where
  "startOfMonth z t = startOfDay z (setDate z t 1)"

text \<open>\<^verbatim>\<open>endOfMonth\<close> sets day 0 of the next month, which is the last day of this month.\<close>

definition endOfMonth :: "int \<Rightarrow> int \<Rightarrow> int" where
  "endOfMonth z t = endOfDay z (setDate z t (daysInMonth (getFullYear z t) (getMonth z t)))"

definition isLastDayOfMonth :: "int \<Rightarrow> int \<Rightarrow> bool" where
  "isLastDayOfMonth z t = (endOfDay z t = endOfMonth z t)"

definition compareAsc :: "int \<Rightarrow> int \<Rightarrow> int" where
  "compareAsc dateLeft dateRight =
     (if dateLeft < dateRight then - 1 else if dateLeft > dateRight then 1 else 0)"

definition differenceInCalendarMonths :: "int \<Rightarrow> int \<Rightarrow> int \<Rightarrow> int" where
  "differenceInCalendarMonths z dateLeft dateRight =
     (getFullYear z dateLeft - getFullYear z dateRight) * 12
       + (getMonth z dateLeft - getMonth z dateRight)"

definition differenceInMonths :: "int \<Rightarrow> int \<Rightarrow> int \<Rightarrow> int" where
  "differenceInMonths z dateLeft dateRight =
     (let sign = compareAsc dateLeft dateRight;
          difference = \<bar>differenceInCalendarMonths z dateLeft dateRight\<bar>
      in if difference < 1 then 0
         else
           let l1 = (if getMonth z dateLeft = 1 \<and> getDate z dateLeft > 27
                     then setDate z dateLeft 30 else dateLeft);
               l2 = setMonth z l1 (getMonth z l1 - sign * difference) (getDate z l1);
               isLastMonthNotFull =
                 (if isLastDayOfMonth z dateLeft \<and> difference = 1
                       \<and> compareAsc dateLeft dateRight = 1
                  then False else compareAsc l2 dateRight = - sign)
           in sign * (difference - (if isLastMonthNotFull then 1 else 0)))"

text \<open>\<^verbatim>\<open>addMonths\<close>: the same day of the month, or the last day of the target month when
  that month is shorter; adding 0 months returns the date.\<close>

definition addMonths :: "int \<Rightarrow> int \<Rightarrow> int \<Rightarrow> int" where
  "addMonths z t amount =
     (if amount = 0 then t
      else
        let dayOfMonth = getDate z t;
            endOfDesiredMonth = setMonth z t (getMonth z t + amount + 1) 0;
            daysInMonth = getDate z endOfDesiredMonth
        in if dayOfMonth \<ge> daysInMonth then endOfDesiredMonth
           else setFullYear z t (getFullYear z endOfDesiredMonth)
                  (getMonth z endOfDesiredMonth) dayOfMonth)"

subsection \<open>date-fns: format\<close>

definition digitChar :: "nat \<Rightarrow> char" where
  "digitChar n = ''0123456789'' ! n"

fun decimal :: "nat \<Rightarrow> string" where
  "decimal n = (if n < 10 then [digitChar n] else decimal (n div 10) @ [digitChar (n mod 10)])"

declare decimal.simps [simp del]

definition addLeadingZeros :: "nat \<Rightarrow> nat \<Rightarrow> string" where
  "addLeadingZeros n targetLength =
     replicate (targetLength - length (decimal n)) CHR ''0'' @ decimal n"

definition monthAbbr :: "int \<Rightarrow> string" where
  "monthAbbr m = [''Jan'', ''Feb'', ''Mar'', ''Apr'', ''May'', ''Jun'',
                  ''Jul'', ''Aug'', ''Sep'', ''Oct'', ''Nov'', ''Dec''] ! nat m"

definition dayAbbr :: "int \<Rightarrow> string" where
  "dayAbbr d = [''Sun'', ''Mon'', ''Tue'', ''Wed'', ''Thu'', ''Fri'', ''Sat''] ! nat d"

text \<open>The token \<^verbatim>\<open>yyyy\<close>: a year before 1 is printed as the year of the era before.\<close>

definition format_yyyy :: "int \<Rightarrow> int \<Rightarrow> string" where
  "format_yyyy z t =
     (let signedYear = getFullYear z t;
          year = (if signedYear > 0 then signedYear else 1 - signedYear)
      in addLeadingZeros (nat year) 4)"

definition format_MM :: "int \<Rightarrow> int \<Rightarrow> string" where
  "format_MM z t = addLeadingZeros (nat (getMonth z t + 1)) 2"

definition format_dd :: "int \<Rightarrow> int \<Rightarrow> string" where
  "format_dd z t = addLeadingZeros (nat (getDate z t)) 2"

definition format_yyyy_MM_dd :: "int \<Rightarrow> int \<Rightarrow> string" where
  "format_yyyy_MM_dd z t = format_yyyy z t @ ''-'' @ format_MM z t @ ''-'' @ format_dd z t"

definition format_MMM_dd :: "int \<Rightarrow> int \<Rightarrow> string" where
  "format_MMM_dd z t = monthAbbr (getMonth z t) @ '' '' @ format_dd z t"

definition format_MMM_yyyy :: "int \<Rightarrow> int \<Rightarrow> string" where
  "format_MMM_yyyy z t = monthAbbr (getMonth z t) @ '' '' @ format_yyyy z t"

definition format_EEE :: "int \<Rightarrow> int \<Rightarrow> string" where
  "format_EEE z t = dayAbbr (getDay z t)"

section \<open>Weekly data (lines 152-215)\<close>

record day_slot =
  day :: string
  dayDate :: int
  hours :: rat

text \<open>The variables of one round of the weekly loop, as they stand at \<^verbatim>\<open>weeks.push\<close>.\<close>

record week_vars =
  weekStartV :: int
  adjustedWeekEnd :: int
  daysData :: "day_slot list"
  weekTotalHours :: rat
  weekCompleted :: nat
  weekTotal :: nat

record WeeklyHoursData =
  weekStart :: string
  weekEnd :: string
  totalHours :: rat
  completionRate :: rat
  days :: "day_slot list"

text \<open>\<^verbatim>\<open>Array.prototype.findIndex\<close>; \<open>None\<close> is \<^verbatim>\<open>-1\<close>.\<close>

fun findIndex :: "('a \<Rightarrow> bool) \<Rightarrow> 'a list \<Rightarrow> nat option" where
  "findIndex p [] = None"
| "findIndex p (x # xs) =
     (if p x then Some 0 else (case findIndex p xs of None \<Rightarrow> None | Some i \<Rightarrow> Some (Suc i)))"

text \<open>\<^verbatim>\<open>Array.prototype.forEach\<close> with a callback that may raise: the first error ends
  the loop.\<close>

fun forEach :: "('a \<Rightarrow> 's \<Rightarrow> error + 's) \<Rightarrow> 'a list \<Rightarrow> 's \<Rightarrow> error + 's" where
  "forEach f [] s = Inr s"
| "forEach f (x # xs) s = (case f x s of Inl e \<Rightarrow> Inl e | Inr s' \<Rightarrow> forEach f xs s')"

text \<open>The callback of \<^verbatim>\<open>reports.forEach\<close> in the weekly loop (lines 186-202).
  \<^verbatim>\<open>format\<close> raises \<^verbatim>\<open>RangeError\<close> on an \<^verbatim>\<open>Invalid Date\<close>.\<close>

definition weekReport :: "int \<Rightarrow> report \<Rightarrow> week_vars \<Rightarrow> error + week_vars" where
  "weekReport z report w =
     (case isWithinInterval (date report) (weekStartV w) (adjustedWeekEnd w) of
        Inl e \<Rightarrow> Inl e
      | Inr False \<Rightarrow> Inr w
      | Inr True \<Rightarrow>
          (case date report of
             None \<Rightarrow> Inl RangeError
           | Some reportDate \<Rightarrow>
               let dayIndex = findIndex (\<lambda>d. format_yyyy_MM_dd z (dayDate d)
                                               = format_yyyy_MM_dd z reportDate) (daysData w);
                   w1 = (case dayIndex of
                           None \<Rightarrow> w
                         | Some i \<Rightarrow>
                             w\<lparr>daysData := (daysData w)
                                   [i := (daysData w ! i)\<lparr>hours := hours (daysData w ! i)
                                                             + or0 (time_spent report) / 60\<rparr>],
                               weekTotalHours := weekTotalHours w + or0 (time_spent report) / 60\<rparr>);
                   w2 = (if status report = Some ''completed''
                         then w1\<lparr>weekCompleted := weekCompleted w1 + 1\<rparr> else w1)
               in Inr (w2\<lparr>weekTotal := weekTotal w2 + 1\<rparr>)))"

text \<open>One round of the loop, from \<^verbatim>\<open>startOfWeek\<close> to the values pushed (lines 164-202).\<close>

definition weekRound :: "int \<Rightarrow> report list \<Rightarrow> int \<Rightarrow> int \<Rightarrow> error + week_vars" where
  "weekRound z reports endDateToUse weekStartDate =
     (let weekStart = startOfWeek z weekStartDate;
          weekEnd = endOfWeek z weekStartDate;
          adjustedWeekEnd = (if weekEnd < endDateToUse then weekEnd else endDateToUse)
      in case eachDayOfInterval z weekStart adjustedWeekEnd of
           Inl e \<Rightarrow> Inl e
         | Inr weekDays \<Rightarrow>
             forEach (weekReport z) reports
               \<lparr>weekStartV = weekStart, adjustedWeekEnd = adjustedWeekEnd,
                daysData = map (\<lambda>date. \<lparr>day = format_EEE z date, dayDate = date, hours = 0\<rparr>) weekDays,
                weekTotalHours = 0, weekCompleted = 0, weekTotal = 0\<rparr>)"

text \<open>\<^verbatim>\<open>for (let i = 0; i < numWeeks; i++)\<close> with its \<^verbatim>\<open>break\<close>.\<close>

function weekLoop :: "int \<Rightarrow> report list \<Rightarrow> int \<Rightarrow> int \<Rightarrow> int \<Rightarrow> int \<Rightarrow> error + week_vars list" where
  "weekLoop z reports endDateToUse startDate numWeeks i =
     (if i < numWeeks then
        let weekStartDate = addWeeks startDate i in
        if weekStartDate > endDateToUse then Inr []
        else (case weekRound z reports endDateToUse weekStartDate of
                Inl e \<Rightarrow> Inl e
              | Inr w \<Rightarrow>
                  (case weekLoop z reports endDateToUse startDate numWeeks (i + 1) of
                     Inl e \<Rightarrow> Inl e
                   | Inr ws \<Rightarrow> Inr (w # ws)))
      else Inr [])"
  by pat_completeness auto

termination weekLoop
  by (relation "measure (\<lambda>(z, reports, endDateToUse, startDate, numWeeks, i). nat (numWeeks - i))")
     auto

declare weekLoop.simps [simp del]

text \<open>
  The weekly pass from the profile's dates. With an \<^verbatim>\<open>Invalid Date\<close> for either profile
  date \<^verbatim>\<open>differenceInWeeks\<close> is \<^verbatim>\<open>NaN\<close>, so is \<^verbatim>\<open>Math.max(1, NaN)\<close>, and
  \<^verbatim>\<open>0 < NaN\<close> is false: the loop body never runs.
\<close>

definition weekRounds :: "int \<Rightarrow> int \<Rightarrow> report list \<Rightarrow> jsdate \<Rightarrow> jsdate \<Rightarrow> error + week_vars list" where
  "weekRounds z today reports startDate endDate =
     (case (startDate, endDate) of
        (Some s, Some e) \<Rightarrow>
          let endDateToUse = min today e;
              numWeeks = max 1 (differenceInWeeks endDateToUse s + 1)
          in weekLoop z reports endDateToUse s numWeeks 0
      | _ \<Rightarrow> Inr [])"

text \<open>The object pushed (lines 204-212).\<close>

definition weekPushed :: "int \<Rightarrow> week_vars \<Rightarrow> WeeklyHoursData" where
  "weekPushed z w =
     (let completionRate = (if weekTotal w > 0
                            then (of_nat (weekCompleted w) / of_nat (weekTotal w)) * 100 else 0)
      in \<lparr>weekStart = format_MMM_dd z (weekStartV w),
          weekEnd = format_MMM_dd z (adjustedWeekEnd w),
          totalHours = toFixed 1 (weekTotalHours w),
          completionRate = toFixed 0 completionRate,
          days = daysData w\<rparr>)"

definition weeklyData :: "int \<Rightarrow> int \<Rightarrow> report list \<Rightarrow> jsdate \<Rightarrow> jsdate \<Rightarrow> error + WeeklyHoursData list" where
  "weeklyData z today reports startDate endDate =
     (case weekRounds z today reports startDate endDate of
        Inl e \<Rightarrow> Inl e
      | Inr ws \<Rightarrow> Inr (map (weekPushed z) ws))"

section \<open>Monthly data (lines 217-260)\<close>

record month_vars =
  monthStartV :: int
  actualMonthEnd :: int
  monthlyHours :: rat
  monthCompleted :: nat
  monthTotal :: nat

record MonthlyData =
  month :: string
  monthTotalHours :: rat
  monthCompletionRate :: rat

definition monthReport :: "report \<Rightarrow> month_vars \<Rightarrow> error + month_vars" where
  "monthReport report m =
     (case isWithinInterval (date report) (monthStartV m) (actualMonthEnd m) of
        Inl e \<Rightarrow> Inl e
      | Inr False \<Rightarrow> Inr m
      | Inr True \<Rightarrow>
          let m1 = m\<lparr>monthlyHours := monthlyHours m + or0 (time_spent report) / 60\<rparr>;
              m2 = (if status report = Some ''completed''
                    then m1\<lparr>monthCompleted := monthCompleted m1 + 1\<rparr> else m1)
          in Inr (m2\<lparr>monthTotal := monthTotal m2 + 1\<rparr>))"

definition monthRound :: "int \<Rightarrow> report list \<Rightarrow> int \<Rightarrow> int \<Rightarrow> error + month_vars" where
  "monthRound z reports analysisEndDate monthDate =
     (let monthStart = startOfMonth z monthDate;
          monthEnd = endOfMonth z monthDate;
          actualMonthEnd = (if monthEnd < analysisEndDate then monthEnd else analysisEndDate)
      in forEach monthReport reports
           \<lparr>monthStartV = monthStart, actualMonthEnd = actualMonthEnd,
            monthlyHours = 0, monthCompleted = 0, monthTotal = 0\<rparr>)"

function monthLoop :: "int \<Rightarrow> report list \<Rightarrow> int \<Rightarrow> int \<Rightarrow> int \<Rightarrow> int \<Rightarrow> error + month_vars list" where
  "monthLoop z reports analysisEndDate startDate numMonths i =
     (if i < numMonths then
        let monthDate = addMonths z startDate i in
        if monthDate > analysisEndDate then Inr []
        else (case monthRound z reports analysisEndDate monthDate of
                Inl e \<Rightarrow> Inl e
              | Inr m \<Rightarrow>
                  (case monthLoop z reports analysisEndDate startDate numMonths (i + 1) of
                     Inl e \<Rightarrow> Inl e
                   | Inr ms \<Rightarrow> Inr (m # ms)))
      else Inr [])"
  by pat_completeness auto

termination monthLoop
  by (relation "measure (\<lambda>(z, reports, analysisEndDate, startDate, numMonths, i). nat (numMonths - i))")
     auto

declare monthLoop.simps [simp del]

text \<open>The monthly pass; \<open>currentDate\<close> is the \<^verbatim>\<open>new Date()\<close> of line 96. An
  \<^verbatim>\<open>Invalid Date\<close> for either profile date makes \<^verbatim>\<open>numMonths\<close> \<^verbatim>\<open>NaN\<close>, as for the weeks.\<close>

definition monthRounds :: "int \<Rightarrow> int \<Rightarrow> report list \<Rightarrow> jsdate \<Rightarrow> jsdate \<Rightarrow> error + month_vars list" where
  "monthRounds z currentDate reports startDate endDate =
     (case (startDate, endDate) of
        (Some s, Some e) \<Rightarrow>
          let analysisEndDate = (if e > currentDate then currentDate else e);
              numMonths = max 1 (differenceInMonths z analysisEndDate s + 1)
          in monthLoop z reports analysisEndDate s numMonths 0
      | _ \<Rightarrow> Inr [])"

definition monthPushed :: "int \<Rightarrow> month_vars \<Rightarrow> MonthlyData" where
  "monthPushed z m =
     (let completionRate = (if monthTotal m > 0
                            then (of_nat (monthCompleted m) / of_nat (monthTotal m)) * 100 else 0)
      in \<lparr>month = format_MMM_yyyy z (monthStartV m),
          monthTotalHours = toFixed 1 (monthlyHours m),
          monthCompletionRate = toFixed 0 completionRate\<rparr>)"

definition monthlyData :: "int \<Rightarrow> int \<Rightarrow> report list \<Rightarrow> jsdate \<Rightarrow> jsdate \<Rightarrow> error + MonthlyData list" where
  "monthlyData z currentDate reports startDate endDate =
     (case monthRounds z currentDate reports startDate endDate of
        Inl e \<Rightarrow> Inl e
      | Inr ms \<Rightarrow> Inr (map (monthPushed z) ms))"

section \<open>Day count and the whole computation\<close>

text \<open>\<^verbatim>\<open>toISOString().split('T')[0]\<close>: the UTC calendar date; years outside 0..9999 are
  printed with a sign and six digits.\<close>

definition toISODate :: "int \<Rightarrow> string" where
  "toISODate t =
     (let ymd = civilFromDays (t div msPerDay);
          y = fst ymd;
          year = (if 0 \<le> y \<and> y \<le> 9999 then addLeadingZeros (nat y) 4
                  else (if y < 0 then ''-'' else ''+'') @ addLeadingZeros (nat \<bar>y\<bar>) 6)
      in year @ ''-'' @ addLeadingZeros (nat (fst (snd ymd))) 2
              @ ''-'' @ addLeadingZeros (nat (snd (snd ymd))) 2)"

text \<open>\<^verbatim>\<open>calculateDayStreak\<close> (lines 75-79): the number of distinct dates among the records.
  \<^verbatim>\<open>toISOString\<close> raises \<^verbatim>\<open>RangeError\<close> on an \<^verbatim>\<open>Invalid Date\<close>.\<close>

definition calculateDayStreak :: "report list \<Rightarrow> error + nat" where
  "calculateDayStreak reports =
     (if reports = [] then Inr 0
      else (case those (map (\<lambda>r. map_option toISODate (date r)) reports) of
              None \<Rightarrow> Inl RangeError
            | Some uniqueDates \<Rightarrow> Inr (length (remdups uniqueDates))))"

record ReportStats =
  statTotalEntries :: nat
  statCompleted :: nat
  statPending :: nat
  statInProgress :: nat
  statTotalHours :: jsnum
  statDayStreak :: nat
  statTags :: object
  statTools :: object
  statWeeklyData :: "WeeklyHoursData list"
  statMonthlyData :: "MonthlyData list"
  statusDistribution :: "(string \<times> nat) list"

text \<open>
  \<^verbatim>\<open>fetchReportStats\<close> from the rows fetched (lines 94-262). \<open>currentDate\<close> and \<open>today\<close> are the
  clock readings of lines 96 and 154. An error anywhere is caught at line 264: the page
  shows it in a toast and sets no statistics; that is the result \<open>Inl\<close>.
\<close>

definition fetchReportStats ::
  "int \<Rightarrow> int \<Rightarrow> int \<Rightarrow> jsdate \<Rightarrow> jsdate \<Rightarrow> report list \<Rightarrow> error + ReportStats" where
  "fetchReportStats z currentDate today startDate endDate reports =
     (case calculateDayStreak reports of
        Inl e \<Rightarrow> Inl e
      | Inr dayStreak \<Rightarrow>
          (case weeklyData z today reports startDate endDate of
             Inl e \<Rightarrow> Inl e
           | Inr weeks \<Rightarrow>
               (case monthlyData z currentDate reports startDate endDate of
                  Inl e \<Rightarrow> Inl e
                | Inr months \<Rightarrow>
                    Inr \<lparr>statTotalEntries = totalEntries reports,
                         statCompleted = completed reports,
                         statPending = pending reports,
                         statInProgress = inProgress reports,
                         statTotalHours = statsTotalHours reports,
                         statDayStreak = dayStreak,
                         statTags = tallyTags reports,
                         statTools = tallyTools reports,
                         statWeeklyData = weeks,
                         statMonthlyData = months,
                         statusDistribution =
                           [(''Completed'', completed reports), (''Pending'', pending reports),
                            (''In Progress'', inProgress reports)]\<rparr>)))"

section \<open>Notions used in the statements\<close>

subsection \<open>Records within an interval\<close>

text \<open>A record is dated within \<open>[a, b]\<close> when its date is valid and lies between the two
  instants, both included. Its hours are \<^verbatim>\<open>(time_spent || 0) / 60\<close>.\<close>

definition dateWithin :: "int \<Rightarrow> int \<Rightarrow> report \<Rightarrow> bool" where
  "dateWithin a b r = (case date r of None \<Rightarrow> False | Some t \<Rightarrow> a \<le> t \<and> t \<le> b)"

definition isCompleted :: "report \<Rightarrow> bool" where
  "isCompleted r = (status r = Some ''completed'')"

definition hoursOf :: "report \<Rightarrow> rat" where
  "hoursOf r = or0 (time_spent r) / 60"

definition hoursWithin :: "report list \<Rightarrow> int \<Rightarrow> int \<Rightarrow> rat" where
  "hoursWithin reports a b = sum_list (map hoursOf (filter (dateWithin a b) reports))"

definition countWithin :: "report list \<Rightarrow> int \<Rightarrow> int \<Rightarrow> nat" where
  "countWithin reports a b = length (filter (dateWithin a b) reports)"

definition completedWithin :: "report list \<Rightarrow> int \<Rightarrow> int \<Rightarrow> nat" where
  "completedWithin reports a b = length (filter (\<lambda>r. dateWithin a b r \<and> isCompleted r) reports)"

text \<open>\<^verbatim>\<open>total > 0 ? (completed / total) * 100 : 0\<close>\<close>

definition percent :: "nat \<Rightarrow> nat \<Rightarrow> rat" where
  "percent c t = (if t > 0 then (of_nat c / of_nat t) * 100 else 0)"

text \<open>A rate is a rounded percentage of \<open>completedCount\<close> in \<open>totalCount\<close> when it is an
  integer between 0 and 100, is 0 for an empty bucket and is otherwise within one half of
  the exact percentage.\<close>

definition roundedPercent :: "nat \<Rightarrow> nat \<Rightarrow> rat \<Rightarrow> bool" where
  "roundedPercent completedCount totalCount rate =
     (rate \<in> \<int> \<and> 0 \<le> rate \<and> rate \<le> 100
      \<and> (if totalCount = 0 then rate = 0
          else \<bar>rate - of_nat completedCount / of_nat totalCount * 100\<bar> \<le> 1 / 2))"

definition weekRateOk :: "int \<Rightarrow> report list \<Rightarrow> week_vars \<Rightarrow> bool" where
  "weekRateOk z reports w =
     (weekTotal w = length (filter (dateWithin (weekStartV w) (adjustedWeekEnd w)) reports)
      \<and> weekCompleted w = length (filter (\<lambda>r. dateWithin (weekStartV w) (adjustedWeekEnd w) r
                                                 \<and> isCompleted r) reports)
      \<and> weekCompleted w \<le> weekTotal w
      \<and> roundedPercent (weekCompleted w) (weekTotal w) (completionRate (weekPushed z w)))"

definition monthRateOk :: "int \<Rightarrow> report list \<Rightarrow> month_vars \<Rightarrow> bool" where
  "monthRateOk z reports m =
     (monthTotal m = length (filter (dateWithin (monthStartV m) (actualMonthEnd m)) reports)
      \<and> monthCompleted m = length (filter (\<lambda>r. dateWithin (monthStartV m) (actualMonthEnd m) r
                                                  \<and> isCompleted r) reports)
      \<and> monthCompleted m \<le> monthTotal m
      \<and> roundedPercent (monthCompleted m) (monthTotal m) (monthCompletionRate (monthPushed z m)))"

subsection \<open>The weekly buckets in closed form\<close>

text \<open>The number of weekly buckets for a valid range, and the first and last instant of
  bucket \<open>k\<close>: the Monday midnight \<open>k\<close> weeks after the one that starts the week of
  \<open>range.start\<close>, and the end of that week or the effective end, whichever is earlier.\<close>

definition bucketCount :: "int \<Rightarrow> int \<Rightarrow> int \<Rightarrow> nat" where
  "bucketCount today s e =
     (if s \<le> min today e then nat ((min today e - s) div (7 * msPerDay) + 1) else 0)"

definition bucketStart :: "int \<Rightarrow> int \<Rightarrow> nat \<Rightarrow> int" where
  "bucketStart z s k = startOfWeek z s + int k * (7 * msPerDay)"

definition bucketEnd :: "int \<Rightarrow> int \<Rightarrow> int \<Rightarrow> int \<Rightarrow> nat \<Rightarrow> int" where
  "bucketEnd z today s e k = min (bucketStart z s k + 7 * msPerDay - 1) (min today e)"

text \<open>A bucket's total in minutes: its \<^verbatim>\<open>totalHours\<close> times 60.\<close>

definition totalMinutes :: "WeeklyHoursData \<Rightarrow> rat" where
  "totalMinutes w = totalHours w * 60"

subsection \<open>Statuses and labels\<close>

definition isInProgress :: "report \<Rightarrow> bool" where
  "isInProgress r = (status r \<in> {Some ''in progress'', Some ''in_progress'', Some ''inprogress''})"

definition otherStatus :: "report \<Rightarrow> bool" where
  "otherStatus r = (status r \<noteq> Some ''completed'' \<and> status r \<noteq> Some ''pending''
      \<and> status r \<noteq> Some ''in progress'' \<and> status r \<noteq> Some ''in_progress''
      \<and> status r \<noteq> Some ''inprogress'')"

text \<open>The labels a field contributes, and those of a whole record list in order.\<close>

definition pieces :: "jsstring option \<Rightarrow> jsstring list" where
  "pieces field =
     (case field of None \<Rightarrow> [] | Some s \<Rightarrow> if s = [] then [] else map trim (split 0x2C s))"

definition labels :: "(report \<Rightarrow> jsstring option) \<Rightarrow> report list \<Rightarrow> jsstring list" where
  "labels field reports = concat (map (\<lambda>report. pieces (field report)) reports)"

text \<open>A label that names a member of \<^verbatim>\<open>Object.prototype\<close>.\<close>

definition inheritedName :: "jsstring \<Rightarrow> bool" where
  "inheritedName l = (l = str ''__proto__'' \<or> l \<in> set objectPrototypeFunctions)"

text \<open>The keys of a tally of the labels \<open>ls\<close>: the labels other than \<^verbatim>\<open>__proto__\<close> in order of
  first occurrence, those that are array indices moved to the front in numeric order.\<close>

definition tallyKeys :: "jsstring list \<Rightarrow> jsstring list" where
  "tallyKeys ls =
     (let ks = rev (remdups (rev (filter (\<lambda>l. l \<noteq> str ''__proto__'') ls)))
      in sort_key digitsValue (filter isArrayIndex ks) @ filter (\<lambda>k. \<not> isArrayIndex k) ks)"

text \<open>The value under a key that has been tallied \<open>n\<close> times.\<close>

fun tallied :: "nat \<Rightarrow> propval" where
  "tallied 0 = PUndefined"
| "tallied (Suc n) = PNumber (Suc n)"

text \<open>\<^verbatim>\<open>Array.prototype.join\<close> with a one-character separator, the inverse of \<open>split\<close>.\<close>

fun joinWith :: "'a \<Rightarrow> 'a list list \<Rightarrow> 'a list" where
  "joinWith c [] = []"
| "joinWith c [p] = p"
| "joinWith c (p # q # ps) = p @ c # joinWith c (q # ps)"

subsection \<open>Intermediate values of the callbacks\<close>

text \<open>The two updates a record within the interval makes to the week's variables, the
  variables at the start of a round, and the same for a month. \<open>covered\<close> says that every
  instant of the week's interval falls on one of the days of its daily breakdown.\<close>

definition addHours :: "report \<Rightarrow> nat option \<Rightarrow> week_vars \<Rightarrow> week_vars" where
  "addHours r dayIndex w =
     (case dayIndex of
        None \<Rightarrow> w
      | Some i \<Rightarrow>
          w\<lparr>daysData := (daysData w)
                [i := (daysData w ! i)\<lparr>hours := hours (daysData w ! i) + or0 (time_spent r) / 60\<rparr>],
            weekTotalHours := weekTotalHours w + or0 (time_spent r) / 60\<rparr>)"

definition addCounts :: "report \<Rightarrow> week_vars \<Rightarrow> week_vars" where
  "addCounts r w =
     (if status r = Some ''completed''
      then w\<lparr>weekCompleted := weekCompleted w + 1, weekTotal := weekTotal w + 1\<rparr>
      else w\<lparr>weekTotal := weekTotal w + 1\<rparr>)"

definition weekInit :: "int \<Rightarrow> int \<Rightarrow> int \<Rightarrow> week_vars" where
  "weekInit z a b =
     \<lparr>weekStartV = a, adjustedWeekEnd = b,
      daysData = map (\<lambda>date. \<lparr>day = format_EEE z date, dayDate = date, hours = 0\<rparr>) (daysLoop z a b),
      weekTotalHours = 0, weekCompleted = 0, weekTotal = 0\<rparr>"

definition covered :: "int \<Rightarrow> week_vars \<Rightarrow> bool" where
  "covered z w = (\<forall>t. weekStartV w \<le> t \<and> t \<le> adjustedWeekEnd w
                    \<longrightarrow> (\<exists>d\<in>set (map dayDate (daysData w)). localDay z d = localDay z t))"

definition monthAdd :: "report \<Rightarrow> month_vars \<Rightarrow> month_vars" where
  "monthAdd r m =
     (if status r = Some ''completed''
      then m\<lparr>monthlyHours := monthlyHours m + or0 (time_spent r) / 60,
             monthCompleted := monthCompleted m + 1, monthTotal := monthTotal m + 1\<rparr>
      else m\<lparr>monthlyHours := monthlyHours m + or0 (time_spent r) / 60,
             monthTotal := monthTotal m + 1\<rparr>)"

definition monthInit :: "int \<Rightarrow> int \<Rightarrow> month_vars" where
  "monthInit a b = \<lparr>monthStartV = a, actualMonthEnd = b, monthlyHours = 0, monthCompleted = 0, monthTotal = 0\<rparr>"

subsection \<open>Example data\<close>

text \<open>Midnight UTC of a calendar date, which is what \<^verbatim>\<open>new Date\<close> returns for a date-only
  text; a record with a valid date, a numeric duration and a status; and one completed
  record of 60 minutes for each day from 1 to 20 January 2024.\<close>

definition utc :: "int \<Rightarrow> int \<Rightarrow> int \<Rightarrow> int" where
  "utc y m d = daysFromCivil y m d * msPerDay"

definition entry :: "int \<Rightarrow> rat \<Rightarrow> string \<Rightarrow> report" where
  "entry d minutes st =
     \<lparr>date = Some d, time_spent = Number minutes, status = Some st, tags = None, skills_tools = None\<rparr>"

definition dailyEntries :: "report list" where
  "dailyEntries = map (\<lambda>d. entry (utc 2024 1 d) 60 ''completed'') [1..20]"

section \<open>Lemmas\<close>

subsection \<open>The overall sum\<close>

lemma foldl_jsadd_NaN: "foldl (\<lambda>sum report. jsadd sum (div60 (time_spent report))) NaN reports = NaN"
  by (induction reports) simp_all

lemma jsadd_NaN_right: "jsadd a NaN = NaN"
  by (cases a) simp_all

text \<open>A field read as \<^verbatim>\<open>undefined\<close> would turn the overall sum into \<^verbatim>\<open>NaN\<close>.\<close>

lemma totalHoursSum_undefined:
  "r \<in> set reports \<Longrightarrow> time_spent r = Undefined
   \<Longrightarrow> foldl (\<lambda>sum report. jsadd sum (div60 (time_spent report))) a reports = NaN"
proof (induction reports arbitrary: a)
  case Nil
  then show ?case by simp
next
  case (Cons x xs)
  show ?case
  proof (cases "x = r")
    case True
    with Cons.prems show ?thesis
      by (simp add: jsadd_NaN_right foldl_jsadd_NaN)
  next
    case False
    with Cons show ?thesis by simp
  qed
qed

text \<open>A \<^verbatim>\<open>null\<close> duration converts to \<open>0\<close> in the overall sum: it changes nothing.\<close>

lemma totalHoursSum_null:
  "time_spent r = Null \<Longrightarrow> totalHoursSum (xs @ r # ys) = totalHoursSum (xs @ ys)"
proof -
  assume n: "time_spent r = Null"
  have "jsadd a (div60 (time_spent r)) = a" for a
    by (cases a) (simp_all add: n)
  then show ?thesis
    by (simp add: totalHoursSum_def)
qed


subsection \<open>Tallies\<close>

lemma map_fst_defineOwn:
  "map fst (defineOwn k v obj) = (if k \<in> set (map fst obj) then map fst obj else map fst obj @ [k])"
  by (induction obj) force+

lemma map_of_defineOwn: "map_of (defineOwn k v obj) = (map_of obj)(k \<mapsto> v)"
  by (induction obj) auto

lemma getProp_setProp:
  "k \<noteq> str ''__proto__'' \<Longrightarrow> getProp (setProp k v obj) l = (if l = k then v else getProp obj l)"
  by (simp add: getProp_def setProp_def map_of_defineOwn)

lemma setProp_proto: "setProp (str ''__proto__'') v obj = obj"
  by (simp add: setProp_def)

lemma orZeroPlusOne_tallied: "orZeroPlusOne (tallied n) = tallied (Suc n)"
  by (cases n) simp_all

lemma getProp_increment_other: "l \<noteq> k \<Longrightarrow> getProp (increment obj k) l = getProp obj l"
  by (cases "k = str ''__proto__''") (simp_all add: increment_def getProp_setProp setProp_proto)

lemma getProp_increment_same:
  "l \<noteq> str ''__proto__'' \<Longrightarrow> getProp (increment obj l) l = orZeroPlusOne (getProp obj l)"
  by (simp add: increment_def getProp_setProp)

lemma getProp_foldl_increment:
  "l \<noteq> str ''__proto__'' \<Longrightarrow> getProp obj l = tallied n
   \<Longrightarrow> getProp (foldl increment obj ls) l = tallied (n + count_list ls l)"
proof (induction ls arbitrary: obj n)
  case Nil
  then show ?case by simp
next
  case (Cons k ls)
  show ?case
  proof (cases "k = l")
    case True
    from Cons.prems have "getProp (increment obj l) l = tallied (Suc n)"
      by (simp add: getProp_increment_same orZeroPlusOne_tallied)
    from Cons.IH [OF Cons.prems(1) this] True show ?thesis by simp
  next
    case False
    with Cons.prems have "getProp (increment obj k) l = tallied n"
      by (simp add: getProp_increment_other)
    from Cons.IH [OF Cons.prems(1) this] False show ?thesis by simp
  qed
qed

lemma getProp_empty: "\<not> inheritedName l \<Longrightarrow> getProp [] l = tallied 0"
  by (simp add: getProp_def inheritedName_def)

lemma map_fst_increment:
  "map fst (increment obj k) =
     (if k = str ''__proto__'' \<or> k \<in> set (map fst obj) then map fst obj else map fst obj @ [k])"
  by (simp add: increment_def setProp_def map_fst_defineOwn)

lemma keys_foldl_increment:
  "map fst (foldl increment [] ls) = rev (remdups (rev (filter (\<lambda>l. l \<noteq> str ''__proto__'') ls)))"
proof (induction ls rule: rev_induct)
  case Nil
  then show ?case by simp
next
  case (snoc l ls)
  have "set (map fst (foldl increment [] ls)) = set (filter (\<lambda>l. l \<noteq> str ''__proto__'') ls)"
    unfolding snoc.IH by simp
  with snoc.IH show ?case
    by (simp add: map_fst_increment)
qed

lemma tallyField_pieces: "tallyField obj field = foldl increment obj (pieces field)"
  by (simp add: tallyField_def pieces_def split: option.splits)

lemma foldl_tallyField:
  "foldl (\<lambda>obj report. tallyField obj (field report)) obj reports
     = foldl increment obj (labels field reports)"
  by (induction reports arbitrary: obj) (simp_all add: labels_def tallyField_pieces)

lemma map_fst_entries: "map fst (entries obj) = ownKeys obj"
  by (simp add: entries_def comp_def)

lemma set_ownKeys: "set (ownKeys obj) = fst ` set obj"
  by (auto simp: ownKeys_def)

lemma map_of_entries:
  "map_of (entries obj) l = (if l \<in> fst ` set obj then Some (getProp obj l) else None)"
proof -
  have "map_of (map (\<lambda>k. (k, f k)) ks) l = (if l \<in> set ks then Some (f l) else None)"
    for f :: "jsstring \<Rightarrow> propval" and ks
    by (induction ks) simp_all
  then show ?thesis
    by (simp add: entries_def set_ownKeys)
qed

text \<open>The tally of a field over all records: the value under a label that is not inherited,
  and the keys in the order of \<^verbatim>\<open>Object.entries\<close>.\<close>

lemma tally_value:
  assumes "\<not> inheritedName l"
  shows "map_of (entries (foldl (\<lambda>obj report. tallyField obj (field report)) [] reports)) l
           = (if l \<in> set (labels field reports)
              then Some (PNumber (count_list (labels field reports) l)) else None)"
proof -
  from assms have l: "l \<noteq> str ''__proto__''"
    by (simp add: inheritedName_def)
  have "set (map fst (foldl increment [] (labels field reports)))
          = set (filter (\<lambda>l. l \<noteq> str ''__proto__'') (labels field reports))"
    unfolding keys_foldl_increment by simp
  then have keys: "fst ` set (foldl increment [] (labels field reports))
                = set (filter (\<lambda>l. l \<noteq> str ''__proto__'') (labels field reports))"
    by simp
  have "getProp (foldl increment [] (labels field reports)) l
          = tallied (count_list (labels field reports) l)"
    using getProp_foldl_increment [OF l getProp_empty [OF assms]] by simp
  moreover have "tallied (count_list (labels field reports) l)
                   = PNumber (count_list (labels field reports) l)"
    if "l \<in> set (labels field reports)"
    using that by (cases "count_list (labels field reports) l") (simp_all add: count_list_0_iff)
  ultimately show ?thesis
    using l by (simp add: map_of_entries foldl_tallyField keys)
qed

lemma tally_keys:
  "map fst (entries (foldl (\<lambda>obj report. tallyField obj (field report)) [] reports))
     = sort_key digitsValue (filter isArrayIndex
         (rev (remdups (rev (filter (\<lambda>l. l \<noteq> str ''__proto__'') (labels field reports))))))
       @ filter (\<lambda>k. \<not> isArrayIndex k)
         (rev (remdups (rev (filter (\<lambda>l. l \<noteq> str ''__proto__'') (labels field reports)))))"
  by (simp add: map_fst_entries ownKeys_def foldl_tallyField keys_foldl_increment)

text \<open>
  What the tally does with labels that \<^verbatim>\<open>Object.prototype\<close> knows, and with array indices:
  under \<^verbatim>\<open>constructor\<close> it stores a text, the source text of the inherited function with
  \<^verbatim>\<open>1\<close> appended at each occurrence; \<^verbatim>\<open>__proto__\<close> gets no property; the labels \<^verbatim>\<open>2\<close> and \<^verbatim>\<open>1\<close>
  are listed first, in numeric order. A NO-BREAK SPACE around a label is trimmed.
\<close>

lemma tally_inherited_and_index_labels:
  "entries (tallyTags [\<lparr>date = None, time_spent = Null, status = None,
                        tags = Some (str ''constructor, 2,__proto__, 1, constructor''),
                        skills_tools = None\<rparr>])
     = [(str ''1'', PNumber 1), (str ''2'', PNumber 1),
        (str ''constructor'', PString (nativeSource (str ''constructor'') @ str ''11''))]
   \<and> nativeSource (str ''constructor'') = str ''function Object() { [native code] }''
   \<and> entries (tallyTags [\<lparr>date = None, time_spent = Null, status = None,
                          tags = Some (str ''api,'' @ [0xA0] @ str ''api''),
                          skills_tools = None\<rparr>])
     = [(str ''api'', PNumber 2)]"
  by code_simp

lemma split_no_separator: "p \<in> set (split c s) \<Longrightarrow> c \<notin> set p"
  by (induction s arbitrary: p) (auto split: if_splits list.splits)

lemma split_nonempty: "split c s \<noteq> []"
  by (induction s) (auto split: list.splits)

lemma joinWith_split: "joinWith c (split c s) = s"
proof (induction s)
  case Nil
  then show ?case by simp
next
  case (Cons x xs)
  obtain p ps where ps: "split c xs = p # ps"
    using split_nonempty [of c xs] by (cases "split c xs") auto
  with Cons show ?case
    by (cases ps) auto
qed

subsection \<open>Local days and weeks\<close>

lemma localDay_shift: "localDay z (t + k * msPerDay) = localDay z t + k"
  unfolding localDay_def msPerDay_def by linarith

lemma localDay_atLocal: "0 \<le> ms \<Longrightarrow> ms < msPerDay \<Longrightarrow> localDay z (atLocal z d ms) = d"
  unfolding localDay_def atLocal_def msPerDay_def by simp

lemma localDay_lower: "atLocal z (localDay z t) 0 \<le> t"
  unfolding localDay_def atLocal_def msPerDay_def by linarith

lemma localDay_upper: "t < atLocal z (localDay z t + 1) 0"
proof -
  have "t + z < (t + z) div 86400000 * 86400000 + 86400000"
    by linarith
  then show ?thesis
    unfolding localDay_def atLocal_def msPerDay_def by (simp add: algebra_simps)
qed

lemma atLocal_mono: "d \<le> d' \<Longrightarrow> atLocal z d ms \<le> atLocal z d' ms"
  unfolding atLocal_def msPerDay_def by simp

lemma startOfWeek_eq:
  "startOfWeek z t = atLocal z (localDay z t - (localDay z t + 3) mod 7) 0"
proof -
  define diff where "diff = (if getDay z t < 1 then 7 else 0) + getDay z t - 1"
  have "diff = (localDay z t + 3) mod 7"
    unfolding diff_def getDay_def by presburger
  moreover have "localDay z (t - diff * msPerDay) = localDay z t - diff"
    using localDay_shift [of z t "- diff"] by simp
  moreover have "startOfWeek z t = atLocal z (localDay z (t - diff * msPerDay)) 0"
    unfolding startOfWeek_def startOfDay_def diff_def Let_def by simp
  ultimately show ?thesis by simp
qed

lemma endOfWeek_eq:
  "endOfWeek z t = atLocal z (localDay z t - (localDay z t + 3) mod 7 + 6) (msPerDay - 1)"
proof -
  define diff where "diff = (if getDay z t < 1 then - 7 else 0) + 6 - (getDay z t - 1)"
  have "diff = 6 - (localDay z t + 3) mod 7"
    unfolding diff_def getDay_def by presburger
  then have D: "localDay z t + diff = localDay z t - (localDay z t + 3) mod 7 + 6"
    by linarith
  have "endOfWeek z t = atLocal z (localDay z (t + diff * msPerDay)) (msPerDay - 1)"
    unfolding endOfWeek_def endOfDay_def diff_def Let_def by simp
  also have "\<dots> = atLocal z (localDay z t + diff) (msPerDay - 1)"
    by (simp only: localDay_shift)
  finally show ?thesis
    by (simp only: D)
qed

lemma endOfWeek_startOfWeek: "endOfWeek z t = startOfWeek z t + 7 * msPerDay - 1"
  unfolding startOfWeek_eq endOfWeek_eq atLocal_def by (simp add: algebra_simps)

lemma startOfWeek_le: "startOfWeek z t \<le> t"
proof -
  have "localDay z t - (localDay z t + 3) mod 7 \<le> localDay z t" by simp
  then have "startOfWeek z t \<le> atLocal z (localDay z t) 0"
    unfolding startOfWeek_eq by (rule atLocal_mono)
  with localDay_lower [of z t] show ?thesis by linarith
qed

lemma le_endOfWeek: "t \<le> endOfWeek z t"
proof -
  have "(localDay z t + 3) mod 7 \<le> 6" by presburger
  then have "localDay z t + 1 \<le> localDay z t - (localDay z t + 3) mod 7 + 7" by simp
  then have "atLocal z (localDay z t + 1) 0 \<le> atLocal z (localDay z t - (localDay z t + 3) mod 7 + 7) 0"
    by (rule atLocal_mono)
  also have "\<dots> = endOfWeek z t + 1"
    unfolding endOfWeek_eq atLocal_def by (simp add: algebra_simps)
  finally show ?thesis using localDay_upper [of t z] by linarith
qed

lemma startOfWeek_addWeeks: "startOfWeek z (addWeeks t k) = startOfWeek z t + k * 7 * msPerDay"
proof -
  have L: "localDay z (addWeeks t k) = localDay z t + k * 7"
    unfolding addWeeks_def addDays_def by (rule localDay_shift)
  have M: "(localDay z t + k * 7 + 3) mod 7 = (localDay z t + 3) mod 7"
    by presburger
  show ?thesis
    unfolding startOfWeek_eq L M atLocal_def by (simp add: algebra_simps)
qed

lemma getDay_startOfWeek: "getDay z (startOfWeek z t) = 1"
proof -
  have "localDay z (startOfWeek z t) = localDay z t - (localDay z t + 3) mod 7"
    unfolding startOfWeek_eq by (rule localDay_atLocal) (simp_all add: msPerDay_def)
  then show ?thesis
    unfolding getDay_def by presburger
qed

lemma startOfDay_startOfWeek: "startOfDay z (startOfWeek z t) = startOfWeek z t"
  unfolding startOfWeek_eq startOfDay_def
  by (simp add: localDay_atLocal msPerDay_def)

subsection \<open>The weekly callback\<close>

lemma findIndex_None: "findIndex p xs = None \<longleftrightarrow> (\<forall>x\<in>set xs. \<not> p x)"
  by (induction xs) (auto split: option.splits)

lemma findIndex_Some: "findIndex p xs = Some i \<Longrightarrow> i < length xs"
  by (induction xs arbitrary: i) (auto split: option.splits if_splits)

lemma map_dayDate_update:
  "i < length xs \<Longrightarrow> map dayDate (xs[i := (xs ! i)\<lparr>hours := h\<rparr>]) = map dayDate xs"
  by (simp add: map_update list_update_same_conv)

lemma map_day_update:
  "i < length xs \<Longrightarrow> map day (xs[i := (xs ! i)\<lparr>hours := h\<rparr>]) = map day xs"
  by (simp add: map_update list_update_same_conv)

lemma isWithinInterval_ok:
  "a \<le> b \<Longrightarrow> isWithinInterval (date r) a b = Inr (dateWithin a b r)"
  by (simp add: isWithinInterval_def dateWithin_def)

lemma weekReport_invalid:
  "\<not> weekStartV w \<le> adjustedWeekEnd w \<Longrightarrow> weekReport z r w = Inl RangeError"
  by (simp add: weekReport_def isWithinInterval_def)

lemma weekReport_outside:
  "weekStartV w \<le> adjustedWeekEnd w \<Longrightarrow> \<not> dateWithin (weekStartV w) (adjustedWeekEnd w) r
   \<Longrightarrow> weekReport z r w = Inr w"
  by (simp add: weekReport_def isWithinInterval_ok)

lemma weekReport_inside:
  "date r = Some t \<Longrightarrow> weekStartV w \<le> t \<Longrightarrow> t \<le> adjustedWeekEnd w
   \<Longrightarrow> weekReport z r w =
         Inr (addCounts r (addHours r (findIndex (\<lambda>d. format_yyyy_MM_dd z (dayDate d)
                                                   = format_yyyy_MM_dd z t) (daysData w)) w))"
  by (simp add: weekReport_def isWithinInterval_def Let_def addCounts_def addHours_def)

lemma addCounts_frame:
  "weekStartV (addCounts r w) = weekStartV w \<and> adjustedWeekEnd (addCounts r w) = adjustedWeekEnd w
   \<and> daysData (addCounts r w) = daysData w \<and> weekTotalHours (addCounts r w) = weekTotalHours w"
  by (simp add: addCounts_def)

lemma addHours_frame:
  assumes "dayIndex = findIndex p (daysData w)"
  shows "weekStartV (addHours r dayIndex w) = weekStartV w"
    and "adjustedWeekEnd (addHours r dayIndex w) = adjustedWeekEnd w"
    and "map dayDate (daysData (addHours r dayIndex w)) = map dayDate (daysData w)"
    and "map day (daysData (addHours r dayIndex w)) = map day (daysData w)"
    and "weekCompleted (addHours r dayIndex w) = weekCompleted w"
    and "weekTotal (addHours r dayIndex w) = weekTotal w"
proof -
  show "weekStartV (addHours r dayIndex w) = weekStartV w"
    by (cases dayIndex) (simp_all add: addHours_def)
  show "adjustedWeekEnd (addHours r dayIndex w) = adjustedWeekEnd w"
    by (cases dayIndex) (simp_all add: addHours_def)
  show "weekCompleted (addHours r dayIndex w) = weekCompleted w"
    by (cases dayIndex) (simp_all add: addHours_def)
  show "weekTotal (addHours r dayIndex w) = weekTotal w"
    by (cases dayIndex) (simp_all add: addHours_def)
  show "map dayDate (daysData (addHours r dayIndex w)) = map dayDate (daysData w)"
  proof (cases dayIndex)
    case None
    then show ?thesis by (simp add: addHours_def)
  next
    case (Some i)
    with assms have "i < length (daysData w)" by (simp add: findIndex_Some)
    with Some show ?thesis by (simp add: addHours_def map_dayDate_update)
  qed
  show "map day (daysData (addHours r dayIndex w)) = map day (daysData w)"
  proof (cases dayIndex)
    case None
    then show ?thesis by (simp add: addHours_def)
  next
    case (Some i)
    with assms have "i < length (daysData w)" by (simp add: findIndex_Some)
    with Some show ?thesis by (simp add: addHours_def map_day_update)
  qed
qed

lemma weekReport_cases:
  assumes "weekReport z r w = Inr w'"
  obtains (outside) "\<not> dateWithin (weekStartV w) (adjustedWeekEnd w) r" "w' = w"
  | (inside) t where "date r = Some t" "dateWithin (weekStartV w) (adjustedWeekEnd w) r"
      "w' = addCounts r (addHours r (findIndex (\<lambda>d. format_yyyy_MM_dd z (dayDate d)
                                                   = format_yyyy_MM_dd z t) (daysData w)) w)"
proof (cases "weekStartV w \<le> adjustedWeekEnd w")
  case False
  with assms show ?thesis by (simp add: weekReport_invalid)
next
  case ok: True
  show ?thesis
  proof (cases "dateWithin (weekStartV w) (adjustedWeekEnd w) r")
    case False
    from weekReport_outside [OF ok False, of z] assms have "w' = w" by simp
    with False show ?thesis by (rule outside)
  next
    case True
    then obtain t where t: "date r = Some t" "weekStartV w \<le> t" "t \<le> adjustedWeekEnd w"
      by (auto simp: dateWithin_def split: option.splits)
    from weekReport_inside [OF t, of z] assms
    have "w' = addCounts r (addHours r (findIndex (\<lambda>d. format_yyyy_MM_dd z (dayDate d)
                                                   = format_yyyy_MM_dd z t) (daysData w)) w)"
      by simp
    with t(1) True show ?thesis by (rule inside)
  qed
qed

lemma weekReport_frame:
  assumes "weekReport z r w = Inr w'"
  shows "weekStartV w' = weekStartV w \<and> adjustedWeekEnd w' = adjustedWeekEnd w
         \<and> map dayDate (daysData w') = map dayDate (daysData w)
         \<and> map day (daysData w') = map day (daysData w)"
  using assms
proof (cases rule: weekReport_cases)
  case outside
  then show ?thesis by simp
next
  case (inside t)
  then show ?thesis
    by (simp add: addCounts_frame addHours_frame [OF refl])
qed

lemma weekReport_counts:
  assumes "weekReport z r w = Inr w'"
  shows "weekTotal w' = weekTotal w + (if dateWithin (weekStartV w) (adjustedWeekEnd w) r then 1 else 0)
         \<and> weekCompleted w' = weekCompleted w
              + (if dateWithin (weekStartV w) (adjustedWeekEnd w) r \<and> isCompleted r then 1 else 0)"
  using assms
proof (cases rule: weekReport_cases)
  case outside
  then show ?thesis by simp
next
  case (inside t)
  then show ?thesis
    by (simp add: addCounts_def addHours_frame [OF refl] isCompleted_def)
qed

lemma format_same_day: "localDay z a = localDay z b \<Longrightarrow> format_yyyy_MM_dd z a = format_yyyy_MM_dd z b"
  by (simp add: format_yyyy_MM_dd_def format_yyyy_def format_MM_def format_dd_def
        getFullYear_def getMonth_def getDate_def)

lemma weekReport_hours:
  assumes "weekReport z r w = Inr w'" and "covered z w"
  shows "weekTotalHours w' = weekTotalHours w
           + (if dateWithin (weekStartV w) (adjustedWeekEnd w) r then hoursOf r else 0)"
  using assms(1)
proof (cases rule: weekReport_cases)
  case outside
  then show ?thesis by simp
next
  case (inside t)
  then have t: "weekStartV w \<le> t" "t \<le> adjustedWeekEnd w"
    by (simp_all add: dateWithin_def)
  with assms(2) obtain d where "d \<in> set (daysData w)" "localDay z (dayDate d) = localDay z t"
    by (auto simp: covered_def)
  then have "findIndex (\<lambda>d. format_yyyy_MM_dd z (dayDate d) = format_yyyy_MM_dd z t) (daysData w) \<noteq> None"
    by (auto simp: findIndex_None dest: format_same_day)
  then obtain i where "findIndex (\<lambda>d. format_yyyy_MM_dd z (dayDate d) = format_yyyy_MM_dd z t) (daysData w) = Some i"
    by auto
  with inside show ?thesis
    by (simp add: addCounts_frame addHours_def hoursOf_def)
qed

lemma weekReport_total:
  "weekStartV w \<le> adjustedWeekEnd w \<Longrightarrow> \<exists>w'. weekReport z r w = Inr w'"
proof (cases "dateWithin (weekStartV w) (adjustedWeekEnd w) r")
  case False
  assume "weekStartV w \<le> adjustedWeekEnd w"
  with False show ?thesis by (simp add: weekReport_outside)
next
  case True
  then obtain t where "date r = Some t" "weekStartV w \<le> t" "t \<le> adjustedWeekEnd w"
    by (auto simp: dateWithin_def split: option.splits)
  then show ?thesis by (simp add: weekReport_inside)
qed

lemma covered_frame:
  "weekStartV w' = weekStartV w \<Longrightarrow> adjustedWeekEnd w' = adjustedWeekEnd w
   \<Longrightarrow> map dayDate (daysData w') = map dayDate (daysData w) \<Longrightarrow> covered z w \<Longrightarrow> covered z w'"
  by (simp add: covered_def)

lemma forEach_week_frame:
  "forEach (weekReport z) rs w = Inr w'
   \<Longrightarrow> weekStartV w' = weekStartV w \<and> adjustedWeekEnd w' = adjustedWeekEnd w
       \<and> map dayDate (daysData w') = map dayDate (daysData w)
       \<and> map day (daysData w') = map day (daysData w)"
proof (induction rs arbitrary: w)
  case Nil
  then show ?case by simp
next
  case (Cons r rs)
  then obtain w1 where w1: "weekReport z r w = Inr w1" "forEach (weekReport z) rs w1 = Inr w'"
    by (auto split: sum.splits)
  from Cons.IH [OF w1(2)] weekReport_frame [OF w1(1)] show ?case by simp
qed

lemma forEach_week_counts:
  "forEach (weekReport z) rs w = Inr w'
   \<Longrightarrow> weekTotal w' = weekTotal w + length (filter (dateWithin (weekStartV w) (adjustedWeekEnd w)) rs)
       \<and> weekCompleted w' = weekCompleted w
            + length (filter (\<lambda>r. dateWithin (weekStartV w) (adjustedWeekEnd w) r \<and> isCompleted r) rs)"
proof (induction rs arbitrary: w)
  case Nil
  then show ?case by simp
next
  case (Cons r rs)
  then obtain w1 where w1: "weekReport z r w = Inr w1" "forEach (weekReport z) rs w1 = Inr w'"
    by (auto split: sum.splits)
  from Cons.IH [OF w1(2)] weekReport_frame [OF w1(1)] weekReport_counts [OF w1(1)]
  show ?case by simp
qed

lemma hoursWithin_Cons:
  "hoursWithin (r # rs) a b = (if dateWithin a b r then hoursOf r else 0) + hoursWithin rs a b"
  by (simp add: hoursWithin_def)

lemma forEach_week_hours:
  "forEach (weekReport z) rs w = Inr w' \<Longrightarrow> covered z w
   \<Longrightarrow> weekTotalHours w' = weekTotalHours w + hoursWithin rs (weekStartV w) (adjustedWeekEnd w)"
proof (induction rs arbitrary: w)
  case Nil
  then show ?case by (simp add: hoursWithin_def)
next
  case (Cons r rs)
  then obtain w1 where w1: "weekReport z r w = Inr w1" "forEach (weekReport z) rs w1 = Inr w'"
    by (auto split: sum.splits)
  note fr = weekReport_frame [OF w1(1)]
  have "covered z w1"
    using fr Cons.prems(2) by (intro covered_frame [of w1 w]) simp_all
  from Cons.IH [OF w1(2) this]
  have "weekTotalHours w' = weekTotalHours w1 + hoursWithin rs (weekStartV w) (adjustedWeekEnd w)"
    by (simp only: fr)
  also have "weekTotalHours w1 = weekTotalHours w
      + (if dateWithin (weekStartV w) (adjustedWeekEnd w) r then hoursOf r else 0)"
    by (rule weekReport_hours [OF w1(1) Cons.prems(2)])
  finally show ?case
    by (simp only: hoursWithin_Cons add.assoc)
qed

lemma forEach_week_total:
  "weekStartV w \<le> adjustedWeekEnd w \<Longrightarrow> \<exists>w'. forEach (weekReport z) rs w = Inr w'"
proof (induction rs arbitrary: w)
  case Nil
  then show ?case by simp
next
  case (Cons r rs)
  from weekReport_total [OF Cons.prems] obtain w1 where w1: "weekReport z r w = Inr w1"
    by blast
  with weekReport_frame [OF w1] Cons.prems have "weekStartV w1 \<le> adjustedWeekEnd w1"
    by simp
  from Cons.IH [OF this] w1 show ?case by simp
qed

subsection \<open>The days of an interval\<close>

lemma localDay_mono: "a \<le> b \<Longrightarrow> localDay z a \<le> localDay z b"
  unfolding localDay_def msPerDay_def by (simp add: zdiv_mono1)

lemma startOfDay_next:
  "startOfDay z (addDays c 1) = atLocal z (localDay z c + 1) 0"
  unfolding startOfDay_def addDays_def using localDay_shift [of z c 1] by simp

lemma startOfDay_atLocal: "startOfDay z (atLocal z d 0) = atLocal z d 0"
  unfolding startOfDay_def by (simp add: localDay_atLocal msPerDay_def)

lemma daysLoop_days:
  "map (localDay z) (daysLoop z (atLocal z d 0) e) = [d .. localDay z e]"
proof (induction z "atLocal z d 0" e arbitrary: d rule: daysLoop.induct)
  case (1 z e)
  have d: "localDay z (atLocal z d 0) = d"
    by (simp add: localDay_atLocal msPerDay_def)
  show ?case
  proof (cases "atLocal z d 0 \<le> e")
    case True
    then have "d \<le> localDay z e"
      using localDay_mono [of "atLocal z d 0" e z] d by simp
    moreover have "map (localDay z) (daysLoop z (atLocal z (d + 1) 0) e) = [d + 1 .. localDay z e]"
      using "1.hyps" [OF True, of "d + 1"] by (simp add: startOfDay_next d)
    ultimately show ?thesis
      using True by (subst daysLoop.simps) (simp add: startOfDay_next d upto_rec1)
  next
    case False
    have "localDay z e < d"
    proof (rule ccontr)
      assume "\<not> localDay z e < d"
      then have "atLocal z d 0 \<le> atLocal z (localDay z e) 0"
        by (intro atLocal_mono) simp
      with localDay_lower [of z e] False show False by linarith
    qed
    with False show ?thesis
      by (subst daysLoop.simps) simp
  qed
qed

lemma daysLoop_midnights:
  "c \<in> set (daysLoop z (atLocal z d 0) e) \<Longrightarrow> startOfDay z c = c \<and> atLocal z d 0 \<le> c \<and> c \<le> e"
proof (induction z "atLocal z d 0" e arbitrary: d rule: daysLoop.induct)
  case (1 z e)
  have d: "localDay z (atLocal z d 0) = d"
    by (simp add: localDay_atLocal msPerDay_def)
  show ?case
  proof (cases "atLocal z d 0 \<le> e")
    case True
    with "1.prems" have "c = atLocal z d 0 \<or> c \<in> set (daysLoop z (atLocal z (d + 1) 0) e)"
      by (subst (asm) daysLoop.simps) (simp add: startOfDay_next d)
    then show ?thesis
    proof
      assume "c = atLocal z d 0"
      with True show ?thesis by (simp add: startOfDay_atLocal)
    next
      assume "c \<in> set (daysLoop z (atLocal z (d + 1) 0) e)"
      from "1.hyps" [OF True _ this] have "startOfDay z c = c \<and> atLocal z (d + 1) 0 \<le> c \<and> c \<le> e"
        by (simp add: startOfDay_next d)
      moreover have "atLocal z d 0 \<le> atLocal z (d + 1) 0"
        by (intro atLocal_mono) simp
      ultimately show ?thesis by linarith
    qed
  next
    case False
    with "1.prems" show ?thesis
      by (subst (asm) daysLoop.simps) simp
  qed
qed

subsection \<open>A round of the weekly loop\<close>

lemma startOfWeek_le_adjusted:
  "wsd \<le> e \<Longrightarrow> startOfWeek z wsd \<le> min (endOfWeek z wsd) e"
  using startOfWeek_le [of z wsd] le_endOfWeek [of wsd z] by simp

lemma weekRound_forEach:
  assumes "wsd \<le> e"
  shows "weekRound z rs e wsd
           = forEach (weekReport z) rs (weekInit z (startOfWeek z wsd) (min (endOfWeek z wsd) e))"
proof -
  have "(if endOfWeek z wsd < e then endOfWeek z wsd else e) = min (endOfWeek z wsd) e"
    by simp
  with startOfWeek_le_adjusted [OF assms, of z] show ?thesis
    unfolding weekRound_def Let_def eachDayOfInterval_def weekInit_def
    by (simp add: startOfDay_startOfWeek)
qed

lemma covered_weekInit: "covered z (weekInit z (startOfWeek z wsd) b)"
  unfolding covered_def
proof (intro allI impI)
  fix t
  assume "weekStartV (weekInit z (startOfWeek z wsd) b) \<le> t
          \<and> t \<le> adjustedWeekEnd (weekInit z (startOfWeek z wsd) b)"
  then have t: "startOfWeek z wsd \<le> t" "t \<le> b"
    by (simp_all add: weekInit_def)
  define d where "d = localDay z wsd - (localDay z wsd + 3) mod 7"
  have s: "startOfWeek z wsd = atLocal z d 0"
    by (simp add: startOfWeek_eq d_def)
  have "localDay z (atLocal z d 0) = d"
    by (simp add: localDay_atLocal msPerDay_def)
  with t have "d \<le> localDay z t" "localDay z t \<le> localDay z b"
    using localDay_mono [of "atLocal z d 0" t z] localDay_mono [of t b z] by (simp_all add: s)
  then have "localDay z t \<in> set (map (localDay z) (daysLoop z (atLocal z d 0) b))"
    by (simp add: daysLoop_days)
  then show "\<exists>d\<in>set (map dayDate (daysData (weekInit z (startOfWeek z wsd) b))).
               localDay z d = localDay z t"
    by (auto simp: weekInit_def s comp_def)
qed

lemma weekRound_ok:
  assumes "wsd \<le> e"
  obtains w where "weekRound z rs e wsd = Inr w"
    and "weekStartV w = startOfWeek z wsd"
    and "adjustedWeekEnd w = min (endOfWeek z wsd) e"
    and "map dayDate (daysData w) = daysLoop z (startOfWeek z wsd) (min (endOfWeek z wsd) e)"
    and "weekTotalHours w = hoursWithin rs (startOfWeek z wsd) (min (endOfWeek z wsd) e)"
    and "weekTotal w = length (filter (dateWithin (startOfWeek z wsd) (min (endOfWeek z wsd) e)) rs)"
    and "weekCompleted w = length (filter (\<lambda>r. dateWithin (startOfWeek z wsd) (min (endOfWeek z wsd) e) r
                                                  \<and> isCompleted r) rs)"
proof -
  let ?w0 = "weekInit z (startOfWeek z wsd) (min (endOfWeek z wsd) e)"
  have ok: "weekStartV ?w0 \<le> adjustedWeekEnd ?w0"
    using startOfWeek_le_adjusted [OF assms, of z] by (simp add: weekInit_def)
  from forEach_week_total [OF ok, of z rs] obtain w where w: "forEach (weekReport z) rs ?w0 = Inr w"
    by blast
  show ?thesis
  proof (rule that [of w])
    show "weekRound z rs e wsd = Inr w"
      by (simp add: weekRound_forEach [OF assms] w)
    show "weekStartV w = startOfWeek z wsd"
      using forEach_week_frame [OF w] by (simp add: weekInit_def)
    show "adjustedWeekEnd w = min (endOfWeek z wsd) e"
      using forEach_week_frame [OF w] by (simp add: weekInit_def)
    show "map dayDate (daysData w) = daysLoop z (startOfWeek z wsd) (min (endOfWeek z wsd) e)"
      using forEach_week_frame [OF w] by (simp add: weekInit_def comp_def)
    show "weekTotalHours w = hoursWithin rs (startOfWeek z wsd) (min (endOfWeek z wsd) e)"
      using forEach_week_hours [OF w covered_weekInit] by (simp add: weekInit_def)
    show "weekTotal w = length (filter (dateWithin (startOfWeek z wsd) (min (endOfWeek z wsd) e)) rs)"
      using forEach_week_counts [OF w] by (simp add: weekInit_def)
    show "weekCompleted w = length (filter (\<lambda>r. dateWithin (startOfWeek z wsd) (min (endOfWeek z wsd) e) r
                                                  \<and> isCompleted r) rs)"
      using forEach_week_counts [OF w] by (simp add: weekInit_def)
  qed
qed

subsection \<open>The weekly loop\<close>

lemma weekLoop_total: "\<exists>ws. weekLoop z rs e s n i = Inr ws"
proof (induction z rs e s n i rule: weekLoop.induct)
  case (1 z rs e s n i)
  show ?case
  proof (cases "i < n \<and> \<not> addWeeks s i > e")
    case False
    then show ?thesis
      by (subst weekLoop.simps) auto
  next
    case True
    then have le: "addWeeks s i \<le> e" by simp
    from weekRound_ok [OF le, of z rs] obtain w where w: "weekRound z rs e (addWeeks s i) = Inr w"
      by metis
    from "1.IH" [OF _ refl _ w] True obtain ws where "weekLoop z rs e s n (i + 1) = Inr ws"
      by auto
    with True w show ?thesis
      by (subst weekLoop.simps) simp
  qed
qed

lemma weekLoop_Cons:
  assumes "weekLoop z rs e s n i = Inr (w # ws)"
  shows "i < n \<and> addWeeks s i \<le> e \<and> weekRound z rs e (addWeeks s i) = Inr w
         \<and> weekLoop z rs e s n (i + 1) = Inr ws"
  using assms
  by (subst (asm) weekLoop.simps) (auto simp: Let_def split: if_splits sum.splits)

lemma weekLoop_nth:
  "weekLoop z rs e s n i = Inr ws \<Longrightarrow> k < length ws
   \<Longrightarrow> addWeeks s (i + int k) \<le> e \<and> weekRound z rs e (addWeeks s (i + int k)) = Inr (ws ! k)"
proof (induction ws arbitrary: i k)
  case Nil
  then show ?case by simp
next
  case (Cons w ws)
  note c = weekLoop_Cons [OF Cons.prems(1)]
  show ?case
  proof (cases k)
    case 0
    with c show ?thesis by simp
  next
    case (Suc j)
    with Cons.prems(2) have "j < length ws" by simp
    from Cons.IH [OF _ this, of "i + 1"] c Suc show ?thesis
      by (simp add: ac_simps)
  qed
qed

lemma weekLoop_nth_vars:
  assumes "weekLoop z rs e s n i = Inr ws" and "k < length ws"
  shows "weekStartV (ws ! k) = startOfWeek z s + (i + int k) * 7 * msPerDay"
    and "adjustedWeekEnd (ws ! k) = min (weekStartV (ws ! k) + 7 * msPerDay - 1) e"
    and "weekStartV (ws ! k) \<le> adjustedWeekEnd (ws ! k)"
    and "map dayDate (daysData (ws ! k)) = daysLoop z (weekStartV (ws ! k)) (adjustedWeekEnd (ws ! k))"
    and "weekTotalHours (ws ! k) = hoursWithin rs (weekStartV (ws ! k)) (adjustedWeekEnd (ws ! k))"
    and "weekTotal (ws ! k) = length (filter (dateWithin (weekStartV (ws ! k)) (adjustedWeekEnd (ws ! k))) rs)"
    and "weekCompleted (ws ! k) = length (filter (\<lambda>r. dateWithin (weekStartV (ws ! k)) (adjustedWeekEnd (ws ! k)) r
                                                  \<and> isCompleted r) rs)"
    and "addWeeks s (i + int k) \<le> e"
proof -
  from weekLoop_nth [OF assms] have le: "addWeeks s (i + int k) \<le> e"
    and r: "weekRound z rs e (addWeeks s (i + int k)) = Inr (ws ! k)"
    by simp_all
  from weekRound_ok [OF le, of z rs] r
  have a: "weekStartV (ws ! k) = startOfWeek z (addWeeks s (i + int k))"
    and b: "adjustedWeekEnd (ws ! k) = min (endOfWeek z (addWeeks s (i + int k))) e"
    and c: "map dayDate (daysData (ws ! k))
             = daysLoop z (startOfWeek z (addWeeks s (i + int k))) (min (endOfWeek z (addWeeks s (i + int k))) e)"
    and d: "weekTotalHours (ws ! k)
             = hoursWithin rs (startOfWeek z (addWeeks s (i + int k))) (min (endOfWeek z (addWeeks s (i + int k))) e)"
    and f: "weekTotal (ws ! k)
             = length (filter (dateWithin (startOfWeek z (addWeeks s (i + int k))) (min (endOfWeek z (addWeeks s (i + int k))) e)) rs)"
    and g: "weekCompleted (ws ! k)
             = length (filter (\<lambda>r. dateWithin (startOfWeek z (addWeeks s (i + int k))) (min (endOfWeek z (addWeeks s (i + int k))) e) r
                                     \<and> isCompleted r) rs)"
    by (metis sum.inject(2))+
  show "weekStartV (ws ! k) = startOfWeek z s + (i + int k) * 7 * msPerDay"
    by (simp add: a startOfWeek_addWeeks)
  show "adjustedWeekEnd (ws ! k) = min (weekStartV (ws ! k) + 7 * msPerDay - 1) e"
    by (simp add: a b endOfWeek_startOfWeek)
  show "weekStartV (ws ! k) \<le> adjustedWeekEnd (ws ! k)"
    unfolding a b by (rule startOfWeek_le_adjusted [OF le])
  show "map dayDate (daysData (ws ! k)) = daysLoop z (weekStartV (ws ! k)) (adjustedWeekEnd (ws ! k))"
    by (simp add: a b c)
  show "weekTotalHours (ws ! k) = hoursWithin rs (weekStartV (ws ! k)) (adjustedWeekEnd (ws ! k))"
    by (simp add: a b d)
  show "weekTotal (ws ! k) = length (filter (dateWithin (weekStartV (ws ! k)) (adjustedWeekEnd (ws ! k))) rs)"
    by (simp add: a b f)
  show "weekCompleted (ws ! k) = length (filter (\<lambda>r. dateWithin (weekStartV (ws ! k)) (adjustedWeekEnd (ws ! k)) r
                                                  \<and> isCompleted r) rs)"
    by (simp add: a b g)
  show "addWeeks s (i + int k) \<le> e" by (rule le)
qed

lemma weekLoop_full_week:
  assumes "weekLoop z rs e s n i = Inr ws" and "Suc k < length ws"
  shows "adjustedWeekEnd (ws ! k) = weekStartV (ws ! k) + 7 * msPerDay - 1"
    and "weekStartV (ws ! Suc k) = adjustedWeekEnd (ws ! k) + 1"
proof -
  from assms(2) have k: "k < length ws" by simp
  note v = weekLoop_nth_vars [OF assms(1) k] and v' = weekLoop_nth_vars [OF assms(1) assms(2)]
  have nxt: "weekStartV (ws ! Suc k) = weekStartV (ws ! k) + 7 * msPerDay"
    by (simp add: v(1) v'(1) algebra_simps)
  have "startOfWeek z (addWeeks s (i + int (Suc k))) \<le> addWeeks s (i + int (Suc k))"
    by (rule startOfWeek_le)
  with v'(8) have "weekStartV (ws ! Suc k) \<le> e"
    by (simp add: v'(1) startOfWeek_addWeeks)
  with nxt have "weekStartV (ws ! k) + 7 * msPerDay - 1 \<le> e" by simp
  then show "adjustedWeekEnd (ws ! k) = weekStartV (ws ! k) + 7 * msPerDay - 1"
    by (simp add: v(2))
  with nxt show "weekStartV (ws ! Suc k) = adjustedWeekEnd (ws ! k) + 1" by simp
qed

lemma length_daysLoop_week: "length (daysLoop z (startOfWeek z t) (startOfWeek z t + 7 * msPerDay - 1)) = 7"
proof -
  define d where "d = localDay z t - (localDay z t + 3) mod 7"
  have s: "startOfWeek z t = atLocal z d 0"
    by (simp add: startOfWeek_eq d_def)
  have "localDay z (atLocal z d 0 + 7 * msPerDay - 1) = d + 6"
    unfolding localDay_def atLocal_def msPerDay_def by simp
  then have "map (localDay z) (daysLoop z (atLocal z d 0) (atLocal z d 0 + 7 * msPerDay - 1)) = [d .. d + 6]"
    by (simp add: daysLoop_days)
  then have "length (daysLoop z (atLocal z d 0) (atLocal z d 0 + 7 * msPerDay - 1)) = length [d .. d + 6]"
    by (metis length_map)
  then show ?thesis by (simp add: s)
qed

lemma hoursWithin_split:
  "a \<le> m \<Longrightarrow> m - 1 \<le> c \<Longrightarrow> hoursWithin rs a (m - 1) + hoursWithin rs m c = hoursWithin rs a c"
proof (induction rs)
  case Nil
  then show ?case by (simp add: hoursWithin_def)
next
  case (Cons r rs)
  have "(if dateWithin a (m - 1) r then hoursOf r else 0) + (if dateWithin m c r then hoursOf r else 0)
          = (if dateWithin a c r then hoursOf r else 0)"
    using Cons.prems by (cases "date r") (auto simp: dateWithin_def)
  with Cons.IH [OF Cons.prems] show ?case
    by (simp only: hoursWithin_Cons)
qed

lemma weekLoop_sum:
  "weekLoop z rs e s n i = Inr ws \<Longrightarrow> ws \<noteq> []
   \<Longrightarrow> sum_list (map weekTotalHours ws)
         = hoursWithin rs (startOfWeek z (addWeeks s i)) (adjustedWeekEnd (last ws))
       \<and> startOfWeek z (addWeeks s i) \<le> adjustedWeekEnd (last ws)"
proof (induction ws arbitrary: i)
  case Nil
  then show ?case by simp
next
  case (Cons w ws)
  note c = weekLoop_Cons [OF Cons.prems(1)]
  from c have le: "addWeeks s i \<le> e" by simp
  from weekRound_ok [OF le, of z rs] c
  have a: "weekStartV w = startOfWeek z (addWeeks s i)"
    and b: "adjustedWeekEnd w = min (endOfWeek z (addWeeks s i)) e"
    and d: "weekTotalHours w = hoursWithin rs (startOfWeek z (addWeeks s i)) (min (endOfWeek z (addWeeks s i)) e)"
    by (metis sum.inject(2))+
  show ?case
  proof (cases "ws = []")
    case True
    with a b d startOfWeek_le_adjusted [OF le, of z] show ?thesis by simp
  next
    case False
    from c have l: "weekLoop z rs e s n (i + 1) = Inr ws" by simp
    from Cons.IH [OF l False]
    have ih: "sum_list (map weekTotalHours ws)
                = hoursWithin rs (startOfWeek z (addWeeks s (i + 1))) (adjustedWeekEnd (last ws))"
      and ih2: "startOfWeek z (addWeeks s (i + 1)) \<le> adjustedWeekEnd (last ws)"
      by simp_all
    have nx: "startOfWeek z (addWeeks s (i + 1)) = startOfWeek z (addWeeks s i) + 7 * msPerDay"
      by (simp add: startOfWeek_addWeeks algebra_simps)
    from False obtain w' ws' where "ws = w' # ws'" by (cases ws) auto
    with weekLoop_Cons [of z rs e s n "i + 1" w' ws'] l have "addWeeks s (i + 1) \<le> e" by simp
    with startOfWeek_le [of z "addWeeks s (i + 1)"] have "startOfWeek z (addWeeks s (i + 1)) \<le> e"
      by linarith
    with nx have b': "min (endOfWeek z (addWeeks s i)) e = startOfWeek z (addWeeks s (i + 1)) - 1"
      by (simp add: endOfWeek_startOfWeek)
    have m: "startOfWeek z (addWeeks s i) \<le> startOfWeek z (addWeeks s (i + 1))"
      by (simp add: nx msPerDay_def)
    have "weekTotalHours w + sum_list (map weekTotalHours ws)
            = hoursWithin rs (startOfWeek z (addWeeks s i)) (adjustedWeekEnd (last ws))"
      unfolding d b' ih using m ih2 by (intro hoursWithin_split) simp_all
    with False m ih2 show ?thesis by simp
  qed
qed

subsection \<open>Months\<close>

lemma getDate_ge_1: "1 \<le> getDate z t"
proof -
  define doy where "doy = snd (marchYearDay (localDay z t))"
  have "(153 * ((5 * doy + 2) div 153) + 2) div 5 \<le> doy"
    by linarith
  moreover have "getDate z t = doy - (153 * ((5 * doy + 2) div 153) + 2) div 5 + 1"
    unfolding getDate_def civilFromDays_def Let_def doy_def by (simp only: snd_conv)
  ultimately show ?thesis by linarith
qed

lemma daysInMonth_ge_1: "1 \<le> daysInMonth y m"
  by (simp add: daysInMonth_def)

lemma timeInDay_bounds: "0 \<le> timeInDay z t \<and> timeInDay z t < msPerDay"
  by (simp add: timeInDay_def msPerDay_def)

lemma localDay_setDate: "localDay z (setDate z t k) = localDay z t - getDate z t + k"
  unfolding setDate_def using timeInDay_bounds [of z t] by (simp add: localDay_atLocal)

lemma startOfMonth_eq: "startOfMonth z t = atLocal z (localDay z t - getDate z t + 1) 0"
  by (simp add: startOfMonth_def startOfDay_def localDay_setDate)

lemma endOfMonth_eq:
  "endOfMonth z t = atLocal z (localDay z t - getDate z t + daysInMonth (getFullYear z t) (getMonth z t))
                      (msPerDay - 1)"
  by (simp add: endOfMonth_def endOfDay_def localDay_setDate)

lemma startOfMonth_le: "startOfMonth z t \<le> t"
proof -
  have "localDay z t - getDate z t + 1 \<le> localDay z t"
    using getDate_ge_1 [of z t] by simp
  then have "startOfMonth z t \<le> atLocal z (localDay z t) 0"
    unfolding startOfMonth_eq by (rule atLocal_mono)
  with localDay_lower [of z t] show ?thesis by linarith
qed

lemma startOfMonth_le_endOfMonth: "startOfMonth z t \<le> endOfMonth z t"
proof -
  have "localDay z t - getDate z t + 1
          \<le> localDay z t - getDate z t + daysInMonth (getFullYear z t) (getMonth z t)"
    using daysInMonth_ge_1 [of "getFullYear z t" "getMonth z t"] by simp
  then have "startOfMonth z t
               \<le> atLocal z (localDay z t - getDate z t + daysInMonth (getFullYear z t) (getMonth z t)) 0"
    unfolding startOfMonth_eq by (rule atLocal_mono)
  also have "\<dots> \<le> endOfMonth z t"
    unfolding endOfMonth_eq atLocal_def msPerDay_def by simp
  finally show ?thesis .
qed

lemma startOfMonth_le_actual:
  "md \<le> ae \<Longrightarrow> startOfMonth z md \<le> min (endOfMonth z md) ae"
  using startOfMonth_le [of z md] startOfMonth_le_endOfMonth [of z md] by simp

subsection \<open>The monthly callback and loop\<close>

lemma monthReport_invalid:
  "\<not> monthStartV m \<le> actualMonthEnd m \<Longrightarrow> monthReport r m = Inl RangeError"
  by (simp add: monthReport_def isWithinInterval_def)

lemma monthReport_outside:
  "monthStartV m \<le> actualMonthEnd m \<Longrightarrow> \<not> dateWithin (monthStartV m) (actualMonthEnd m) r
   \<Longrightarrow> monthReport r m = Inr m"
  by (simp add: monthReport_def isWithinInterval_ok)

lemma monthReport_inside:
  "monthStartV m \<le> actualMonthEnd m \<Longrightarrow> dateWithin (monthStartV m) (actualMonthEnd m) r
   \<Longrightarrow> monthReport r m = Inr (monthAdd r m)"
  by (simp add: monthReport_def isWithinInterval_ok Let_def monthAdd_def)

lemma monthReport_ok:
  "monthStartV m \<le> actualMonthEnd m
   \<Longrightarrow> monthReport r m = Inr (if dateWithin (monthStartV m) (actualMonthEnd m) r then monthAdd r m else m)"
  by (simp add: monthReport_inside monthReport_outside)

lemma forEach_month:
  "monthStartV m \<le> actualMonthEnd m
   \<Longrightarrow> \<exists>m'. forEach monthReport rs m = Inr m'
          \<and> monthStartV m' = monthStartV m \<and> actualMonthEnd m' = actualMonthEnd m
          \<and> monthlyHours m' = monthlyHours m + hoursWithin rs (monthStartV m) (actualMonthEnd m)
          \<and> monthTotal m' = monthTotal m + length (filter (dateWithin (monthStartV m) (actualMonthEnd m)) rs)
          \<and> monthCompleted m' = monthCompleted m
               + length (filter (\<lambda>r. dateWithin (monthStartV m) (actualMonthEnd m) r \<and> isCompleted r) rs)"
proof (induction rs arbitrary: m)
  case Nil
  then show ?case by (simp add: hoursWithin_def)
next
  case (Cons r rs)
  let ?m1 = "if dateWithin (monthStartV m) (actualMonthEnd m) r then monthAdd r m else m"
  have fr: "monthStartV ?m1 = monthStartV m" "actualMonthEnd ?m1 = actualMonthEnd m"
    by (simp_all add: monthAdd_def)
  with Cons.prems have "monthStartV ?m1 \<le> actualMonthEnd ?m1" by simp
  from Cons.IH [OF this] obtain m' where m': "forEach monthReport rs ?m1 = Inr m'"
    "monthStartV m' = monthStartV m" "actualMonthEnd m' = actualMonthEnd m"
    "monthlyHours m' = monthlyHours ?m1 + hoursWithin rs (monthStartV m) (actualMonthEnd m)"
    "monthTotal m' = monthTotal ?m1 + length (filter (dateWithin (monthStartV m) (actualMonthEnd m)) rs)"
    "monthCompleted m' = monthCompleted ?m1
       + length (filter (\<lambda>r. dateWithin (monthStartV m) (actualMonthEnd m) r \<and> isCompleted r) rs)"
    unfolding fr by blast
  have "forEach monthReport (r # rs) m = Inr m'"
    by (simp add: monthReport_ok [OF Cons.prems] m'(1))
  moreover have "monthlyHours m' = monthlyHours m + hoursWithin (r # rs) (monthStartV m) (actualMonthEnd m)"
    unfolding m'(4) hoursWithin_Cons by (simp add: monthAdd_def hoursOf_def)
  moreover have "monthTotal m' = monthTotal m
       + length (filter (dateWithin (monthStartV m) (actualMonthEnd m)) (r # rs))"
    unfolding m'(5) by (simp add: monthAdd_def)
  moreover have "monthCompleted m' = monthCompleted m
       + length (filter (\<lambda>r. dateWithin (monthStartV m) (actualMonthEnd m) r \<and> isCompleted r) (r # rs))"
    unfolding m'(6) by (simp add: monthAdd_def isCompleted_def)
  ultimately show ?case using m'(2,3) by blast
qed

lemma monthRound_ok:
  assumes "md \<le> ae"
  obtains m where "monthRound z rs ae md = Inr m"
    and "monthStartV m = startOfMonth z md"
    and "actualMonthEnd m = min (endOfMonth z md) ae"
    and "monthlyHours m = hoursWithin rs (startOfMonth z md) (min (endOfMonth z md) ae)"
    and "monthTotal m = length (filter (dateWithin (startOfMonth z md) (min (endOfMonth z md) ae)) rs)"
    and "monthCompleted m = length (filter (\<lambda>r. dateWithin (startOfMonth z md) (min (endOfMonth z md) ae) r
                                                  \<and> isCompleted r) rs)"
proof -
  let ?m0 = "monthInit (startOfMonth z md) (min (endOfMonth z md) ae)"
  have r: "monthRound z rs ae md = forEach monthReport rs ?m0"
    unfolding monthRound_def Let_def monthInit_def by (simp add: min_def)
  have "monthStartV ?m0 \<le> actualMonthEnd ?m0"
    using startOfMonth_le_actual [OF assms, of z] by (simp add: monthInit_def)
  from forEach_month [OF this, of rs] r that show ?thesis
    by (auto simp: monthInit_def)
qed

lemma monthLoop_total: "\<exists>ms. monthLoop z rs ae s n i = Inr ms"
proof (induction z rs ae s n i rule: monthLoop.induct)
  case (1 z rs ae s n i)
  show ?case
  proof (cases "i < n \<and> \<not> addMonths z s i > ae")
    case False
    then show ?thesis
      by (subst monthLoop.simps) auto
  next
    case True
    then have le: "addMonths z s i \<le> ae" by simp
    from monthRound_ok [OF le, of z rs] obtain m where m: "monthRound z rs ae (addMonths z s i) = Inr m"
      by metis
    from "1.IH" [OF _ refl _ m] True obtain ms where "monthLoop z rs ae s n (i + 1) = Inr ms"
      by auto
    with True m show ?thesis
      by (subst monthLoop.simps) simp
  qed
qed

lemma monthLoop_Cons:
  assumes "monthLoop z rs ae s n i = Inr (m # ms)"
  shows "i < n \<and> addMonths z s i \<le> ae \<and> monthRound z rs ae (addMonths z s i) = Inr m
         \<and> monthLoop z rs ae s n (i + 1) = Inr ms"
  using assms
  by (subst (asm) monthLoop.simps) (auto simp: Let_def split: if_splits sum.splits)

lemma monthLoop_mem:
  "monthLoop z rs ae s n i = Inr ms \<Longrightarrow> m \<in> set ms
   \<Longrightarrow> \<exists>md. md \<le> ae \<and> monthRound z rs ae md = Inr m"
proof (induction ms arbitrary: i)
  case Nil
  then show ?case by simp
next
  case (Cons m' ms)
  note c = monthLoop_Cons [OF Cons.prems(1)]
  show ?case
  proof (cases "m = m'")
    case True
    with c show ?thesis by blast
  next
    case False
    with Cons.prems(2) have "m \<in> set ms" by simp
    from Cons.IH [OF _ this, of "i + 1"] c show ?thesis by simp
  qed
qed

subsection \<open>The number of weekly buckets; both passes return\<close>

lemma weekLoop_length:
  "weekLoop z rs e s n i = Inr ws
   \<Longrightarrow> int (length ws) = max 0 (min n ((e - s) div (7 * msPerDay) + 1) - i)"
proof (induction z rs e s n i arbitrary: ws rule: weekLoop.induct)
  case (1 z rs e s n i)
  have iff: "addWeeks s i \<le> e \<longleftrightarrow> i < (e - s) div (7 * msPerDay) + 1"
  proof -
    have "s + i * 604800000 \<le> e \<Longrightarrow> i < (e - s) div 604800000 + 1"
      by linarith
    moreover have "i < (e - s) div 604800000 + 1 \<Longrightarrow> s + i * 604800000 \<le> e"
      by linarith
    ultimately show ?thesis
      unfolding addWeeks_def addDays_def msPerDay_def by auto
  qed
  show ?case
  proof (cases "i < n \<and> addWeeks s i \<le> e")
    case False
    with "1.prems" have "ws = []"
      by (subst (asm) weekLoop.simps) (auto simp: Let_def split: if_splits)
    with False iff show ?thesis by auto
  next
    case True
    with "1.prems" obtain w ws' where ws: "ws = w # ws'"
      "weekRound z rs e (addWeeks s i) = Inr w" "weekLoop z rs e s n (i + 1) = Inr ws'"
      by (subst (asm) weekLoop.simps) (auto simp: Let_def split: if_splits sum.splits)
    from "1.IH" [OF _ refl _ ws(2) ws(3)] True
    have "int (length ws') = max 0 (min n ((e - s) div (7 * msPerDay) + 1) - (i + 1))"
      by simp
    with True iff ws(1) show ?thesis by auto
  qed
qed

lemma weekRounds_total: "\<exists>ws. weekRounds z today rs sd ed = Inr ws"
  by (cases sd; cases ed) (simp_all add: weekRounds_def Let_def weekLoop_total)

lemma monthRounds_total: "\<exists>ms. monthRounds z cur rs sd ed = Inr ms"
  by (cases sd; cases ed) (simp_all add: monthRounds_def Let_def monthLoop_total)

lemma numWeeks_eq:
  "s \<le> e \<Longrightarrow> max 1 (differenceInWeeks e s + 1) = (e - s) div (7 * msPerDay) + 1"
  unfolding differenceInWeeks_def differenceInDays_def truncDiv_def msPerDay_def
  by (simp add: zdiv_zmult2_eq) linarith

lemma weekRounds_length:
  assumes "weekRounds z today rs (Some s) (Some e) = Inr ws"
  shows "int (length ws) = (if s \<le> min today e then (min today e - s) div (7 * msPerDay) + 1 else 0)"
proof -
  define E where "E = min today e"
  define n where "n = max 1 (differenceInWeeks E s + 1)"
  define q where "q = (E - s) div (7 * msPerDay)"
  from assms have "weekLoop z rs E s n 0 = Inr ws"
    by (simp add: weekRounds_def Let_def E_def n_def)
  from weekLoop_length [OF this] have len: "int (length ws) = max 0 (min n (q + 1))"
    by (simp add: q_def)
  show ?thesis
  proof (cases "s \<le> E")
    case True
    then have "0 \<le> q"
      by (simp add: q_def msPerDay_def pos_imp_zdiv_nonneg_iff)
    moreover from numWeeks_eq [OF True] have "n = q + 1"
      by (simp add: n_def q_def)
    ultimately have "int (length ws) = (min today e - s) div (7 * msPerDay) + 1"
      using len by (simp add: q_def E_def)
    moreover have "s \<le> min today e"
      using True unfolding E_def .
    ultimately show ?thesis
      by auto
  next
    case False
    then have "(E - s) div 604800000 + 1 \<le> 0"
      by linarith
    then have "q + 1 \<le> 0"
      by (simp add: q_def msPerDay_def)
    with len have "int (length ws) = 0" by simp
    moreover have "\<not> s \<le> min today e"
      using False unfolding E_def .
    ultimately show ?thesis
      by auto
  qed
qed

lemma weeklyData_empty:
  "e < s \<Longrightarrow> weeklyData z today rs (Some s) (Some e) = Inr []"
proof -
  assume "e < s"
  then have gt: "addWeeks s 0 > min today e"
    by (simp add: addWeeks_def addDays_def)
  have "weekLoop z rs (min today e) s (max 1 (differenceInWeeks (min today e) s + 1)) 0 = Inr []"
    using gt by (subst weekLoop.simps) (simp add: Let_def)
  then show ?thesis
    by (simp add: weeklyData_def weekRounds_def Let_def)
qed

lemma monthlyData_empty:
  "e < s \<Longrightarrow> monthlyData z cur rs (Some s) (Some e) = Inr []"
proof -
  assume "e < s"
  then have gt: "addMonths z s 0 > (if e > cur then cur else e)"
    by (simp add: addMonths_def)
  have "monthLoop z rs (if e > cur then cur else e) s
          (max 1 (differenceInMonths z (if e > cur then cur else e) s + 1)) 0 = Inr []"
    using gt by (subst monthLoop.simps) (simp add: Let_def)
  then show ?thesis
    by (simp add: monthlyData_def monthRounds_def Let_def)
qed

subsection \<open>Rounding the completion rate\<close>

lemma toFixed_0_nonneg: "0 \<le> x \<Longrightarrow> toFixed 0 x = of_int \<lfloor>x + 1 / 2\<rfloor>"
  by (simp add: toFixed_def)

lemma toFixed_0_0: "toFixed 0 0 = 0"
proof -
  have "\<lfloor>(1::rat) / 2\<rfloor> = 0"
    by (rule floor_unique) simp_all
  then show ?thesis
    by (simp add: toFixed_def)
qed

lemma roundedPercent_toFixed:
  assumes "c \<le> t"
  shows "roundedPercent c t (toFixed 0 (if t > 0 then (of_nat c / of_nat t) * 100 else 0))"
proof (cases "t = 0")
  case True
  then show ?thesis
    by (simp add: roundedPercent_def toFixed_0_0)
next
  case False
  define x :: rat where "x = of_nat c / of_nat t * 100"
  from False assms have "0 \<le> x" "x \<le> 100"
    by (simp_all add: x_def divide_le_eq)
  have r: "toFixed 0 x = of_int \<lfloor>x + 1 / 2\<rfloor>"
    using \<open>0 \<le> x\<close> by (rule toFixed_0_nonneg)
  have lo: "of_int \<lfloor>x + 1 / 2\<rfloor> \<le> x + 1 / 2"
    by (rule of_int_floor_le)
  have hi: "x + 1 / 2 < of_int \<lfloor>x + 1 / 2\<rfloor> + 1"
    using floor_correct [of "x + 1 / 2"] by simp
  have "(0::int) \<le> \<lfloor>x + 1 / 2\<rfloor>"
    using \<open>0 \<le> x\<close> by simp
  moreover have "\<lfloor>x + 1 / 2\<rfloor> \<le> (100::int)"
  proof -
    have "x + 1 / 2 < 101" using \<open>x \<le> 100\<close> by simp
    then have "\<lfloor>x + 1 / 2\<rfloor> < 101" by (simp add: floor_less_iff)
    then show ?thesis by simp
  qed
  ultimately have b: "(0::rat) \<le> of_int \<lfloor>x + 1 / 2\<rfloor>" "of_int \<lfloor>x + 1 / 2\<rfloor> \<le> (100::rat)"
    by simp_all
  have c: "\<bar>of_int \<lfloor>x + 1 / 2\<rfloor> - x\<bar> \<le> 1 / 2"
    using lo hi by linarith
  have "roundedPercent c t (of_int \<lfloor>x + 1 / 2\<rfloor>)"
    unfolding roundedPercent_def x_def [symmetric] using b c False by simp
  moreover have "(if t > 0 then (of_nat c / of_nat t) * 100 else 0) = x"
    using False by (simp add: x_def)
  ultimately show ?thesis
    by (simp only: r)
qed

lemma filter_conj_length_le:
  "length (filter (\<lambda>r. P r \<and> Q r) xs) \<le> length (filter P xs)"
  by (induction xs) auto

lemma weekRounds_nth:
  assumes "weekRounds z today rs (Some s) (Some e) = Inr ws" and "k < length ws"
  shows "weekStartV (ws ! k) = startOfWeek z s + int k * (7 * msPerDay)"
    and "adjustedWeekEnd (ws ! k) = min (weekStartV (ws ! k) + 7 * msPerDay - 1) (min today e)"
    and "weekStartV (ws ! k) \<le> adjustedWeekEnd (ws ! k)"
    and "map dayDate (daysData (ws ! k)) = daysLoop z (weekStartV (ws ! k)) (adjustedWeekEnd (ws ! k))"
    and "weekTotalHours (ws ! k) = hoursWithin rs (weekStartV (ws ! k)) (adjustedWeekEnd (ws ! k))"
    and "weekTotal (ws ! k) = length (filter (dateWithin (weekStartV (ws ! k)) (adjustedWeekEnd (ws ! k))) rs)"
    and "weekCompleted (ws ! k) = length (filter (\<lambda>r. dateWithin (weekStartV (ws ! k)) (adjustedWeekEnd (ws ! k)) r
                                                  \<and> isCompleted r) rs)"
proof -
  from assms(1)
  have l: "weekLoop z rs (min today e) s (max 1 (differenceInWeeks (min today e) s + 1)) 0 = Inr ws"
    by (simp add: weekRounds_def Let_def)
  note v = weekLoop_nth_vars [OF l assms(2)]
  show "weekStartV (ws ! k) = startOfWeek z s + int k * (7 * msPerDay)"
    using v(1) by simp
  show "adjustedWeekEnd (ws ! k) = min (weekStartV (ws ! k) + 7 * msPerDay - 1) (min today e)"
    by (rule v(2))
  show "weekStartV (ws ! k) \<le> adjustedWeekEnd (ws ! k)"
    by (rule v(3))
  show "map dayDate (daysData (ws ! k)) = daysLoop z (weekStartV (ws ! k)) (adjustedWeekEnd (ws ! k))"
    by (rule v(4))
  show "weekTotalHours (ws ! k) = hoursWithin rs (weekStartV (ws ! k)) (adjustedWeekEnd (ws ! k))"
    by (rule v(5))
  show "weekTotal (ws ! k) = length (filter (dateWithin (weekStartV (ws ! k)) (adjustedWeekEnd (ws ! k))) rs)"
    by (rule v(6))
  show "weekCompleted (ws ! k) = length (filter (\<lambda>r. dateWithin (weekStartV (ws ! k)) (adjustedWeekEnd (ws ! k)) r
                                                  \<and> isCompleted r) rs)"
    by (rule v(7))
qed

lemma weekRounds_invalid:
  "sd = None \<or> ed = None \<Longrightarrow> weekRounds z today rs sd ed = Inr []"
  by (cases sd; cases ed) (simp_all add: weekRounds_def)

lemma monthRounds_invalid:
  "sd = None \<or> ed = None \<Longrightarrow> monthRounds z cur rs sd ed = Inr []"
  by (cases sd; cases ed) (simp_all add: monthRounds_def)

lemma weekRounds_rateOk:
  assumes "weekRounds z today rs sd ed = Inr ws" and "w \<in> set ws"
  shows "weekRateOk z rs w"
proof (cases "sd = None \<or> ed = None")
  case True
  with assms weekRounds_invalid [OF True, of z today rs] show ?thesis by simp
next
  case False
  then obtain s e where se: "sd = Some s" "ed = Some e" by auto
  from assms(2) obtain k where k: "k < length ws" "ws ! k = w"
    by (auto simp: in_set_conv_nth)
  note v = weekRounds_nth [OF assms(1) [unfolded se] k(1), unfolded k(2)]
  have le: "weekCompleted w \<le> weekTotal w"
    unfolding v(6) v(7) by (rule filter_conj_length_le)
  have "completionRate (weekPushed z w)
          = toFixed 0 (if weekTotal w > 0
                       then (of_nat (weekCompleted w) / of_nat (weekTotal w)) * 100 else 0)"
    by (simp add: weekPushed_def Let_def)
  with roundedPercent_toFixed [OF le]
  have "roundedPercent (weekCompleted w) (weekTotal w) (completionRate (weekPushed z w))"
    by simp
  with v(6) v(7) le show ?thesis
    by (simp add: weekRateOk_def)
qed

lemma monthRounds_rateOk:
  assumes "monthRounds z cur rs sd ed = Inr ms" and "m \<in> set ms"
  shows "monthRateOk z rs m"
proof (cases "sd = None \<or> ed = None")
  case True
  with assms monthRounds_invalid [OF True, of z cur rs] show ?thesis by simp
next
  case False
  then obtain s e where se: "sd = Some s" "ed = Some e" by auto
  define ae where "ae = (if e > cur then cur else e)"
  from assms(1) have "monthLoop z rs ae s (max 1 (differenceInMonths z ae s + 1)) 0 = Inr ms"
    by (simp add: monthRounds_def Let_def se ae_def)
  from monthLoop_mem [OF this assms(2)] obtain md where md: "md \<le> ae" "monthRound z rs ae md = Inr m"
    by blast
  from monthRound_ok [OF md(1), of z rs] md(2)
  have a: "monthStartV m = startOfMonth z md"
    and b: "actualMonthEnd m = min (endOfMonth z md) ae"
    and f: "monthTotal m = length (filter (dateWithin (startOfMonth z md) (min (endOfMonth z md) ae)) rs)"
    and g: "monthCompleted m = length (filter (\<lambda>r. dateWithin (startOfMonth z md) (min (endOfMonth z md) ae) r
                                                  \<and> isCompleted r) rs)"
    by (metis sum.inject(2))+
  have le: "monthCompleted m \<le> monthTotal m"
    unfolding f g by (rule filter_conj_length_le)
  have "monthCompletionRate (monthPushed z m)
          = toFixed 0 (if monthTotal m > 0
                       then (of_nat (monthCompleted m) / of_nat (monthTotal m)) * 100 else 0)"
    by (simp add: monthPushed_def Let_def)
  with roundedPercent_toFixed [OF le]
  have "roundedPercent (monthCompleted m) (monthTotal m) (monthCompletionRate (monthPushed z m))"
    by simp
  with a b f g le show ?thesis
    by (simp add: monthRateOk_def)
qed

subsection \<open>Replacing and dropping a record\<close>

lemma forEach_replace:
  "(\<And>w. f r w = f r' w) \<Longrightarrow> forEach f (xs @ r # ys) w = forEach f (xs @ r' # ys) w"
  by (induction xs arbitrary: w) (auto split: sum.splits)

lemma weekLoop_cong:
  assumes "\<And>wsd. wsd \<le> e \<Longrightarrow> weekRound z rs e wsd = weekRound z rs' e wsd"
  shows "weekLoop z rs e s n i = weekLoop z rs' e s n i"
  using assms
proof (induction z rs e s n i rule: weekLoop.induct)
  case (1 z rs e s n i)
  show ?case
  proof (cases "i < n \<and> addWeeks s i \<le> e")
    case False
    then show ?thesis
      by (subst weekLoop.simps, subst (2) weekLoop.simps) auto
  next
    case True
    then have r: "weekRound z rs e (addWeeks s i) = weekRound z rs' e (addWeeks s i)"
      using "1.prems" by simp
    show ?thesis
    proof (cases "weekRound z rs e (addWeeks s i)")
      case (Inl err)
      with r have "weekRound z rs' e (addWeeks s i) = Inl err" by simp
      with Inl True show ?thesis
        by (subst weekLoop.simps, subst (2) weekLoop.simps) simp
    next
      case (Inr w)
      from "1.IH" [OF _ refl _ Inr] True "1.prems"
      have "weekLoop z rs e s n (i + 1) = weekLoop z rs' e s n (i + 1)"
        by simp
      moreover from r Inr have "weekRound z rs' e (addWeeks s i) = Inr w" by simp
      ultimately show ?thesis
        using Inr True by (subst weekLoop.simps, subst (2) weekLoop.simps) simp
    qed
  qed
qed

lemma monthLoop_cong:
  assumes "\<And>md. md \<le> ae \<Longrightarrow> monthRound z rs ae md = monthRound z rs' ae md"
  shows "monthLoop z rs ae s n i = monthLoop z rs' ae s n i"
  using assms
proof (induction z rs ae s n i rule: monthLoop.induct)
  case (1 z rs ae s n i)
  show ?case
  proof (cases "i < n \<and> addMonths z s i \<le> ae")
    case False
    then show ?thesis
      by (subst monthLoop.simps, subst (2) monthLoop.simps) auto
  next
    case True
    then have r: "monthRound z rs ae (addMonths z s i) = monthRound z rs' ae (addMonths z s i)"
      using "1.prems" by simp
    show ?thesis
    proof (cases "monthRound z rs ae (addMonths z s i)")
      case (Inl err)
      with r have "monthRound z rs' ae (addMonths z s i) = Inl err" by simp
      with Inl True show ?thesis
        by (subst monthLoop.simps, subst (2) monthLoop.simps) simp
    next
      case (Inr m)
      from "1.IH" [OF _ refl _ Inr] True "1.prems"
      have "monthLoop z rs ae s n (i + 1) = monthLoop z rs' ae s n (i + 1)"
        by simp
      moreover from r Inr have "monthRound z rs' ae (addMonths z s i) = Inr m" by simp
      ultimately show ?thesis
        using Inr True by (subst monthLoop.simps, subst (2) monthLoop.simps) simp
    qed
  qed
qed

lemma weekRounds_cong:
  assumes "\<And>e wsd. wsd \<le> e \<Longrightarrow> weekRound z rs e wsd = weekRound z rs' e wsd"
  shows "weekRounds z today rs sd ed = weekRounds z today rs' sd ed"
  by (cases sd; cases ed) (simp_all add: weekRounds_def Let_def weekLoop_cong [OF assms])

lemma monthRounds_cong:
  assumes "\<And>ae md. md \<le> ae \<Longrightarrow> monthRound z rs ae md = monthRound z rs' ae md"
  shows "monthRounds z cur rs sd ed = monthRounds z cur rs' sd ed"
  by (cases sd; cases ed) (simp_all add: monthRounds_def Let_def monthLoop_cong [OF assms])

lemma weekReport_same:
  "date r = date r' \<Longrightarrow> status r = status r' \<Longrightarrow> or0 (time_spent r) = or0 (time_spent r')
   \<Longrightarrow> weekReport z r w = weekReport z r' w"
  by (auto simp: weekReport_def split: sum.splits bool.splits option.splits)

lemma monthReport_same:
  "date r = date r' \<Longrightarrow> status r = status r' \<Longrightarrow> or0 (time_spent r) = or0 (time_spent r')
   \<Longrightarrow> monthReport r m = monthReport r' m"
  by (auto simp: monthReport_def split: sum.splits bool.splits)

lemma rounds_replace:
  assumes "date r = date r'" and "status r = status r'"
    and "or0 (time_spent r) = or0 (time_spent r')"
  shows "weekRounds z today (xs @ r # ys) sd ed = weekRounds z today (xs @ r' # ys) sd ed"
    and "monthRounds z cur (xs @ r # ys) sd ed = monthRounds z cur (xs @ r' # ys) sd ed"
proof -
  have "forEach (weekReport z) (xs @ r # ys) w = forEach (weekReport z) (xs @ r' # ys) w" for w
    by (rule forEach_replace) (rule weekReport_same [OF assms])
  then have "weekRound z (xs @ r # ys) e wsd = weekRound z (xs @ r' # ys) e wsd" for e wsd
    by (auto simp: weekRound_def Let_def split: sum.splits)
  then show "weekRounds z today (xs @ r # ys) sd ed = weekRounds z today (xs @ r' # ys) sd ed"
    by (intro weekRounds_cong)
  have "forEach monthReport (xs @ r # ys) m = forEach monthReport (xs @ r' # ys) m" for m
    by (rule forEach_replace) (rule monthReport_same [OF assms])
  then have "monthRound z (xs @ r # ys) ae md = monthRound z (xs @ r' # ys) ae md" for ae md
    by (simp add: monthRound_def Let_def)
  then show "monthRounds z cur (xs @ r # ys) sd ed = monthRounds z cur (xs @ r' # ys) sd ed"
    by (intro monthRounds_cong)
qed

lemma forEach_week_drop:
  "date r = None \<Longrightarrow> weekStartV w \<le> adjustedWeekEnd w
   \<Longrightarrow> forEach (weekReport z) (xs @ r # ys) w = forEach (weekReport z) (xs @ ys) w"
proof (induction xs arbitrary: w)
  case Nil
  then have "\<not> dateWithin (weekStartV w) (adjustedWeekEnd w) r"
    by (simp add: dateWithin_def)
  with Nil show ?case
    by (simp add: weekReport_outside)
next
  case (Cons x xs)
  from weekReport_total [OF Cons.prems(2), of z x] obtain w1 where w1: "weekReport z x w = Inr w1"
    by blast
  with weekReport_frame [OF w1] Cons.prems(2) have "weekStartV w1 \<le> adjustedWeekEnd w1"
    by simp
  from Cons.IH [OF Cons.prems(1) this] w1 show ?case by simp
qed

lemma forEach_month_drop:
  "date r = None \<Longrightarrow> monthStartV m \<le> actualMonthEnd m
   \<Longrightarrow> forEach monthReport (xs @ r # ys) m = forEach monthReport (xs @ ys) m"
proof (induction xs arbitrary: m)
  case Nil
  then have "\<not> dateWithin (monthStartV m) (actualMonthEnd m) r"
    by (simp add: dateWithin_def)
  with Nil show ?case
    by (simp add: monthReport_outside)
next
  case (Cons x xs)
  let ?m1 = "if dateWithin (monthStartV m) (actualMonthEnd m) x then monthAdd x m else m"
  have "monthStartV ?m1 \<le> actualMonthEnd ?m1"
    using Cons.prems(2) by (simp add: monthAdd_def)
  from Cons.IH [OF Cons.prems(1) this] show ?case
    by (simp add: monthReport_ok [OF Cons.prems(2)])
qed

lemma rounds_drop:
  assumes "date r = None"
  shows "weekRounds z today (xs @ r # ys) sd ed = weekRounds z today (xs @ ys) sd ed"
    and "monthRounds z cur (xs @ r # ys) sd ed = monthRounds z cur (xs @ ys) sd ed"
proof -
  have "weekRound z (xs @ r # ys) e wsd = weekRound z (xs @ ys) e wsd" if "wsd \<le> e" for e wsd
  proof -
    have "weekStartV (weekInit z (startOfWeek z wsd) (min (endOfWeek z wsd) e))
            \<le> adjustedWeekEnd (weekInit z (startOfWeek z wsd) (min (endOfWeek z wsd) e))"
      using startOfWeek_le_adjusted [OF that, of z] by (simp add: weekInit_def)
    from forEach_week_drop [OF assms this] show ?thesis
      by (simp add: weekRound_forEach [OF that])
  qed
  then show "weekRounds z today (xs @ r # ys) sd ed = weekRounds z today (xs @ ys) sd ed"
    by (intro weekRounds_cong)
  have "monthRound z (xs @ r # ys) ae md = monthRound z (xs @ ys) ae md" if "md \<le> ae" for ae md
  proof -
    have "(if endOfMonth z md < ae then endOfMonth z md else ae) = min (endOfMonth z md) ae"
      by simp
    moreover have "monthStartV (monthInit (startOfMonth z md) (min (endOfMonth z md) ae))
            \<le> actualMonthEnd (monthInit (startOfMonth z md) (min (endOfMonth z md) ae))"
      using startOfMonth_le_actual [OF that, of z] by (simp add: monthInit_def)
    ultimately show ?thesis
      using forEach_month_drop [OF assms, of "monthInit (startOfMonth z md) (min (endOfMonth z md) ae)" xs ys]
      unfolding monthRound_def Let_def monthInit_def by simp
  qed
  then show "monthRounds z cur (xs @ r # ys) sd ed = monthRounds z cur (xs @ ys) sd ed"
    by (intro monthRounds_cong)
qed

lemma weeklyData_total: "\<exists>out. weeklyData z today rs sd ed = Inr out"
  using weekRounds_total [of z today rs sd ed] by (auto simp: weeklyData_def)

lemma monthlyData_total: "\<exists>out. monthlyData z cur rs sd ed = Inr out"
  using monthRounds_total [of z cur rs sd ed] by (auto simp: monthlyData_def)

text \<open>A record whose date is an \<^verbatim>\<open>Invalid Date\<close> is within no interval: both passes give,
  round for round, what they give without it, and both return.\<close>

lemma passes_skip_invalid_date:
  assumes "date r = None"
  shows "weekRounds z today (xs @ r # ys) startDate endDate = weekRounds z today (xs @ ys) startDate endDate
         \<and> monthRounds z currentDate (xs @ r # ys) startDate endDate
             = monthRounds z currentDate (xs @ ys) startDate endDate
         \<and> weeklyData z today (xs @ r # ys) startDate endDate = weeklyData z today (xs @ ys) startDate endDate
         \<and> monthlyData z currentDate (xs @ r # ys) startDate endDate
             = monthlyData z currentDate (xs @ ys) startDate endDate
         \<and> (\<exists>out. weeklyData z today (xs @ r # ys) startDate endDate = Inr out)
         \<and> (\<exists>out. monthlyData z currentDate (xs @ r # ys) startDate endDate = Inr out)"
  using rounds_drop [OF assms] weeklyData_total monthlyData_total
  by (simp add: weeklyData_def monthlyData_def)

text \<open>\<open>today\<close> enters the weekly pass only through \<open>min today endDate\<close>: every clock reading at
  or after the end date gives the same buckets.\<close>

lemma weeklyData_today:
  "e \<le> today \<Longrightarrow> weeklyData z today rs sd (Some e) = weeklyData z e rs sd (Some e)"
  by (cases sd) (simp_all add: weeklyData_def weekRounds_def min_def)

subsection \<open>The weekly data in closed form\<close>

lemma weekRounds_bucketCount:
  assumes "weekRounds z today rs (Some s) (Some e) = Inr ws"
  shows "length ws = bucketCount today s e"
proof -
  have "int (length ws) = int (bucketCount today s e)"
  proof (cases "s \<le> min today e")
    case True
    then have "0 \<le> (min today e - s) div (7 * msPerDay)"
      by (simp add: msPerDay_def pos_imp_zdiv_nonneg_iff)
    with weekRounds_length [OF assms] True show ?thesis
      by (simp add: bucketCount_def)
  next
    case False
    with weekRounds_length [OF assms] show ?thesis
      by (auto simp: bucketCount_def)
  qed
  then show ?thesis by simp
qed

lemma weekRounds_bucket:
  assumes "weekRounds z today rs (Some s) (Some e) = Inr ws" and "k < length ws"
  shows "weekStartV (ws ! k) = bucketStart z s k"
    and "adjustedWeekEnd (ws ! k) = bucketEnd z today s e k"
    and "weekTotalHours (ws ! k) = hoursWithin rs (bucketStart z s k) (bucketEnd z today s e k)"
    and "weekTotal (ws ! k) = countWithin rs (bucketStart z s k) (bucketEnd z today s e k)"
    and "weekCompleted (ws ! k) = completedWithin rs (bucketStart z s k) (bucketEnd z today s e k)"
    and "map dayDate (daysData (ws ! k)) = daysLoop z (bucketStart z s k) (bucketEnd z today s e k)"
proof -
  note v = weekRounds_nth [OF assms]
  show a: "weekStartV (ws ! k) = bucketStart z s k"
    by (simp add: v(1) bucketStart_def)
  show b: "adjustedWeekEnd (ws ! k) = bucketEnd z today s e k"
    using v(2) by (simp add: a bucketEnd_def)
  show "weekTotalHours (ws ! k) = hoursWithin rs (bucketStart z s k) (bucketEnd z today s e k)"
    using v(5) by (simp add: a b)
  show "weekTotal (ws ! k) = countWithin rs (bucketStart z s k) (bucketEnd z today s e k)"
    using v(6) by (simp add: a b countWithin_def)
  show "weekCompleted (ws ! k) = completedWithin rs (bucketStart z s k) (bucketEnd z today s e k)"
    using v(7) by (simp add: a b completedWithin_def)
  show "map dayDate (daysData (ws ! k)) = daysLoop z (bucketStart z s k) (bucketEnd z today s e k)"
    using v(4) by (simp add: a b)
qed

lemma weeklyData_rounds:
  "weekRounds z today rs sd ed = Inr ws \<Longrightarrow> weeklyData z today rs sd ed = Inr (map (weekPushed z) ws)"
  by (simp add: weeklyData_def)

lemma weeklyData_totalHours:
  "map_sum id (map totalHours) (weeklyData z today rs (Some s) (Some e))
     = Inr (map (\<lambda>k. toFixed 1 (hoursWithin rs (bucketStart z s k) (bucketEnd z today s e k)))
              [0..<bucketCount today s e])"
proof -
  from weekRounds_total obtain ws where ws: "weekRounds z today rs (Some s) (Some e) = Inr ws"
    by blast
  have "map totalHours (map (weekPushed z) ws)
          = map (\<lambda>k. toFixed 1 (hoursWithin rs (bucketStart z s k) (bucketEnd z today s e k)))
              [0..<bucketCount today s e]"
    by (rule nth_equalityI)
       (simp_all add: weekRounds_bucketCount [OF ws] weekRounds_bucket [OF ws] weekPushed_def Let_def)
  then show ?thesis
    by (simp add: weeklyData_rounds [OF ws])
qed

lemma weeklyData_completionRate:
  "map_sum id (map completionRate) (weeklyData z today rs (Some s) (Some e))
     = Inr (map (\<lambda>k. toFixed 0 (percent (completedWithin rs (bucketStart z s k) (bucketEnd z today s e k))
                                         (countWithin rs (bucketStart z s k) (bucketEnd z today s e k))))
              [0..<bucketCount today s e])"
proof -
  from weekRounds_total obtain ws where ws: "weekRounds z today rs (Some s) (Some e) = Inr ws"
    by blast
  have "map completionRate (map (weekPushed z) ws)
          = map (\<lambda>k. toFixed 0 (percent (completedWithin rs (bucketStart z s k) (bucketEnd z today s e k))
                                         (countWithin rs (bucketStart z s k) (bucketEnd z today s e k))))
              [0..<bucketCount today s e]"
    by (rule nth_equalityI)
       (simp_all add: weekRounds_bucketCount [OF ws] weekRounds_bucket [OF ws] weekPushed_def Let_def
          percent_def)
  then show ?thesis
    by (simp add: weeklyData_rounds [OF ws])
qed

lemma weeklyData_weekStart:
  "map_sum id (map weekStart) (weeklyData z today rs (Some s) (Some e))
     = Inr (map (\<lambda>k. format_MMM_dd z (bucketStart z s k)) [0..<bucketCount today s e])"
proof -
  from weekRounds_total obtain ws where ws: "weekRounds z today rs (Some s) (Some e) = Inr ws"
    by blast
  have "map weekStart (map (weekPushed z) ws)
          = map (\<lambda>k. format_MMM_dd z (bucketStart z s k)) [0..<bucketCount today s e]"
    by (rule nth_equalityI)
       (simp_all add: weekRounds_bucketCount [OF ws] weekRounds_bucket [OF ws] weekPushed_def Let_def)
  then show ?thesis
    by (simp add: weeklyData_rounds [OF ws])
qed

lemma weeklyData_weekEnd:
  "map_sum id (map weekEnd) (weeklyData z today rs (Some s) (Some e))
     = Inr (map (\<lambda>k. format_MMM_dd z (bucketEnd z today s e k)) [0..<bucketCount today s e])"
proof -
  from weekRounds_total obtain ws where ws: "weekRounds z today rs (Some s) (Some e) = Inr ws"
    by blast
  have "map weekEnd (map (weekPushed z) ws)
          = map (\<lambda>k. format_MMM_dd z (bucketEnd z today s e k)) [0..<bucketCount today s e]"
    by (rule nth_equalityI)
       (simp_all add: weekRounds_bucketCount [OF ws] weekRounds_bucket [OF ws] weekPushed_def Let_def)
  then show ?thesis
    by (simp add: weeklyData_rounds [OF ws])
qed

lemma weeklyData_dayDates:
  "map_sum id (map (\<lambda>w. map dayDate (days w))) (weeklyData z today rs (Some s) (Some e))
     = Inr (map (\<lambda>k. daysLoop z (bucketStart z s k) (bucketEnd z today s e k))
              [0..<bucketCount today s e])"
proof -
  from weekRounds_total obtain ws where ws: "weekRounds z today rs (Some s) (Some e) = Inr ws"
    by blast
  have "map (\<lambda>w. map dayDate (days w)) (map (weekPushed z) ws)
          = map (\<lambda>k. daysLoop z (bucketStart z s k) (bucketEnd z today s e k))
              [0..<bucketCount today s e]"
    by (rule nth_equalityI)
       (simp_all add: weekRounds_bucketCount [OF ws] weekRounds_bucket [OF ws] weekPushed_def Let_def)
  then show ?thesis
    by (simp add: weeklyData_rounds [OF ws])
qed

lemma monthRounds_nonempty:
  assumes "monthRounds z cur rs (Some s) (Some e) = Inr ms" and "s \<le> cur" and "s \<le> e"
  shows "ms \<noteq> []"
proof -
  define ae where "ae = (if e > cur then cur else e)"
  define n where "n = max 1 (differenceInMonths z ae s + 1)"
  from assms(2,3) have le: "addMonths z s 0 \<le> ae"
    by (simp add: ae_def addMonths_def)
  from assms(1) have l: "monthLoop z rs ae s n 0 = Inr ms"
    by (simp add: monthRounds_def Let_def ae_def n_def)
  have "0 < n" by (simp add: n_def)
  with l le show ?thesis
    by (subst (asm) monthLoop.simps) (auto simp: Let_def split: sum.splits)
qed

lemma dailyEntries_bucketCount: "bucketCount (utc 2024 1 20) (utc 2024 1 1) (utc 2024 1 20) = 3"
  by code_simp

lemma weeklyData_totalMinutes:
  "map_sum id (map totalMinutes) (weeklyData z today rs (Some s) (Some e))
     = Inr (map (\<lambda>k. toFixed 1 (hoursWithin rs (bucketStart z s k) (bucketEnd z today s e k)) * 60)
              [0..<bucketCount today s e])"
proof -
  from weeklyData_total obtain out where out: "weeklyData z today rs (Some s) (Some e) = Inr out"
    by blast
  with weeklyData_totalHours [of z today rs s e]
  have "map totalHours out
          = map (\<lambda>k. toFixed 1 (hoursWithin rs (bucketStart z s k) (bucketEnd z today s e k)))
              [0..<bucketCount today s e]"
    by simp
  then have "map (\<lambda>h. h * 60) (map totalHours out)
          = map (\<lambda>h. h * 60) (map (\<lambda>k. toFixed 1 (hoursWithin rs (bucketStart z s k) (bucketEnd z today s e k)))
              [0..<bucketCount today s e])"
    by simp
  moreover have "totalMinutes = (\<lambda>w. totalHours w * 60)"
    by (rule ext) (simp add: totalMinutes_def)
  ultimately show ?thesis
    by (simp add: out comp_def)
qed

lemma bucketStart_startOfWeek: "bucketStart z s k = startOfWeek z (addWeeks s (int k))"
  by (simp add: bucketStart_def startOfWeek_addWeeks algebra_simps)

lemma bucketStart_mono: "j \<le> k \<Longrightarrow> bucketStart z s j \<le> bucketStart z s k"
  by (simp add: bucketStart_def msPerDay_def)

lemma bucketStart_Suc: "bucketStart z s (Suc k) = bucketStart z s k + 7 * msPerDay"
  by (simp add: bucketStart_def algebra_simps)

subsection \<open>The day count\<close>

lemma those_None: "None \<in> set xs \<Longrightarrow> those xs = None"
  by (induction xs) (auto split: option.splits)

lemma those_Some: "None \<notin> set xs \<Longrightarrow> \<exists>ys. those xs = Some ys"
proof (induction xs)
  case Nil
  then show ?case by simp
next
  case (Cons a xs)
  then obtain y ys where "a = Some y" "those xs = Some ys"
    by (cases a) auto
  then show ?case by simp
qed

text \<open>Outside the two passes, the day count of line 124 does raise on a record whose date
  is an \<^verbatim>\<open>Invalid Date\<close>, and otherwise the whole computation returns statistics.\<close>

lemma calculateDayStreak_invalid:
  "r \<in> set reports \<Longrightarrow> date r = None \<Longrightarrow> calculateDayStreak reports = Inl RangeError"
proof -
  assume r: "r \<in> set reports" "date r = None"
  then have "None \<in> set (map (\<lambda>r. map_option toISODate (date r)) reports)"
    by force
  then have "those (map (\<lambda>r. map_option toISODate (date r)) reports) = None"
    by (rule those_None)
  with r(1) show ?thesis
    by (auto simp: calculateDayStreak_def)
qed

lemma fetchReportStats_invalid_date:
  "r \<in> set reports \<Longrightarrow> date r = None
   \<Longrightarrow> fetchReportStats z currentDate today startDate endDate reports = Inl RangeError"
  by (simp add: fetchReportStats_def calculateDayStreak_invalid)

lemma fetchReportStats_valid_dates:
  assumes "\<forall>r\<in>set reports. date r \<noteq> None"
  shows "\<exists>stats. fetchReportStats z currentDate today startDate endDate reports = Inr stats"
proof -
  from assms have "None \<notin> set (map (\<lambda>r. map_option toISODate (date r)) reports)"
    by auto
  from those_Some [OF this] have "\<exists>n. calculateDayStreak reports = Inr n"
    by (auto simp: calculateDayStreak_def)
  with weeklyData_total [of z today reports startDate endDate]
    monthlyData_total [of z currentDate reports startDate endDate]
  show ?thesis
    by (auto simp: fetchReportStats_def)
qed

text \<open>The count of weekly buckets follows the whole weeks between the two dates, not the
  calendar weeks they touch: for a range from Sunday 7 to Monday 8 January 2024 the only
  bucket is the week of 1-7 January, and a record of 8 January is in no bucket.\<close>

lemma weekly_tail_not_covered:
  "map_sum id (map totalHours)
     (weeklyData 0 (utc 2024 1 8) [entry (utc 2024 1 8) 60 ''completed'']
        (Some (utc 2024 1 7)) (Some (utc 2024 1 8))) = Inr [0]
   \<and> hoursWithin [entry (utc 2024 1 8) 60 ''completed''] (utc 2024 1 7) (utc 2024 1 8) = 1"
proof
  have "map (\<lambda>k. toFixed 1 (hoursWithin [entry (utc 2024 1 8) 60 ''completed'']
                                (bucketStart 0 (utc 2024 1 7) k)
                                (bucketEnd 0 (utc 2024 1 8) (utc 2024 1 7) (utc 2024 1 8) k)))
              [0..<bucketCount (utc 2024 1 8) (utc 2024 1 7) (utc 2024 1 8)] = [0]"
    by code_simp
  then show "map_sum id (map totalHours)
     (weeklyData 0 (utc 2024 1 8) [entry (utc 2024 1 8) 60 ''completed'']
        (Some (utc 2024 1 7)) (Some (utc 2024 1 8))) = Inr [0]"
    by (simp only: weeklyData_totalHours)
  show "hoursWithin [entry (utc 2024 1 8) 60 ''completed''] (utc 2024 1 7) (utc 2024 1 8) = 1"
    by code_simp
qed

section \<open>The claims\<close>

text \<open>
  C1 (as stated, refuted). The first bucket starts on the Monday of the week of
  \<open>range.start\<close>, not at \<open>range.start\<close>. With the range 3 to 7 January 2024 (Wednesday to
  Sunday) and one record of 60 minutes on Monday 1 January, the only bucket totals one
  hour, while no record is dated within the range.
\<close>

theorem first_bucket_counts_before_start:
  "map_sum id (map totalHours)
     (weeklyData 0 (utc 2024 1 7) [entry (utc 2024 1 1) 60 ''completed'']
        (Some (utc 2024 1 3)) (Some (utc 2024 1 7))) = Inr [1]
   \<and> hoursWithin [entry (utc 2024 1 1) 60 ''completed''] (utc 2024 1 3) (min (utc 2024 1 7) (utc 2024 1 7)) = 0"
proof
  have "map (\<lambda>k. toFixed 1 (hoursWithin [entry (utc 2024 1 1) 60 ''completed'']
                                (bucketStart 0 (utc 2024 1 3) k)
                                (bucketEnd 0 (utc 2024 1 7) (utc 2024 1 3) (utc 2024 1 7) k)))
              [0..<bucketCount (utc 2024 1 7) (utc 2024 1 3) (utc 2024 1 7)] = [1]"
    by code_simp
  then show "map_sum id (map totalHours)
     (weeklyData 0 (utc 2024 1 7) [entry (utc 2024 1 1) 60 ''completed'']
        (Some (utc 2024 1 3)) (Some (utc 2024 1 7))) = Inr [1]"
    by (simp only: weeklyData_totalHours)
  show "hoursWithin [entry (utc 2024 1 1) 60 ''completed''] (utc 2024 1 3) (min (utc 2024 1 7) (utc 2024 1 7)) = 0"
    by code_simp
qed

text \<open>
  C1 (amended). When \<open>range.start\<close> is not after the effective end, the weekly loop produces
  at least one bucket, and the hours accumulated over all buckets (\<open>weekTotalHours\<close>, before
  each is rounded to one decimal for display) add up to the hours of exactly those records
  dated from the Monday midnight that starts the week of \<open>range.start\<close> through the end of
  the last bucket produced; a missing duration counts as zero. The last bucket ends at the
  end of its week or at the effective end, whichever is earlier.
\<close>

theorem weekly_sum:
  assumes "weekRounds z today reports (Some s) (Some e) = Inr ws" and "s \<le> min today e"
  shows "ws \<noteq> []
         \<and> sum_list (map weekTotalHours ws)
             = hoursWithin reports (startOfWeek z s) (adjustedWeekEnd (last ws))
         \<and> adjustedWeekEnd (last ws) = min (weekStartV (last ws) + 7 * msPerDay - 1) (min today e)
         \<and> startOfWeek z s \<le> s"
proof (intro conjI)
  have "0 \<le> (min today e - s) div (7 * msPerDay)"
    using assms(2) by (simp add: msPerDay_def pos_imp_zdiv_nonneg_iff)
  then have "0 < nat ((min today e - s) div (7 * msPerDay) + 1)"
    by simp
  then have "0 < bucketCount today s e"
    using assms(2) by (simp only: bucketCount_def if_True)
  with weekRounds_bucketCount [OF assms(1)] show ne: "ws \<noteq> []"
    by auto
  from assms(1)
  have l: "weekLoop z reports (min today e) s (max 1 (differenceInWeeks (min today e) s + 1)) 0 = Inr ws"
    by (simp add: weekRounds_def Let_def)
  from weekLoop_sum [OF l ne]
  show "sum_list (map weekTotalHours ws)
          = hoursWithin reports (startOfWeek z s) (adjustedWeekEnd (last ws))"
    by (simp add: addWeeks_def addDays_def)
  from ne have "length ws - 1 < length ws" by simp
  from weekRounds_nth(2) [OF assms(1) this]
  show "adjustedWeekEnd (last ws) = min (weekStartV (last ws) + 7 * msPerDay - 1) (min today e)"
    using ne by (simp add: last_conv_nth)
  show "startOfWeek z s \<le> s"
    by (rule startOfWeek_le)
qed

theorem weekly_sum_witness:
  "\<exists>ws. weekRounds 0 (utc 2024 1 20) dailyEntries (Some (utc 2024 1 3)) (Some (utc 2024 1 20)) = Inr ws
      \<and> length ws = 3
      \<and> sum_list (map weekTotalHours ws) = 20
      \<and> adjustedWeekEnd (last ws) = utc 2024 1 20
      \<and> startOfWeek 0 (utc 2024 1 3) = utc 2024 1 1
      \<and> hoursWithin dailyEntries (utc 2024 1 3) (utc 2024 1 20) = 18"
proof -
  from weekRounds_total obtain ws
    where ws: "weekRounds 0 (utc 2024 1 20) dailyEntries (Some (utc 2024 1 3)) (Some (utc 2024 1 20)) = Inr ws"
    by blast
  have "bucketCount (utc 2024 1 20) (utc 2024 1 3) (utc 2024 1 20) = 3"
    by code_simp
  with weekRounds_bucketCount [OF ws] have len: "length ws = 3" by simp
  then have "ws \<noteq> []" by auto
  then have "last ws = ws ! (length ws - 1)"
    by (rule last_conv_nth)
  then have l: "last ws = ws ! 2"
    by (simp add: len)
  have k: "2 < length ws" using len by simp
  have le: "utc 2024 1 3 \<le> min (utc 2024 1 20) (utc 2024 1 20)"
    by code_simp
  note t = weekly_sum [OF ws le]
  have e: "min (bucketStart 0 (utc 2024 1 3) 2 + 7 * msPerDay - 1) (utc 2024 1 20) = utc 2024 1 20"
    by code_simp
  from t have "adjustedWeekEnd (last ws) = utc 2024 1 20"
    by (simp add: l weekRounds_bucket(1) [OF ws k] e)
  moreover have s: "startOfWeek 0 (utc 2024 1 3) = utc 2024 1 1"
    by code_simp
  moreover have "hoursWithin dailyEntries (utc 2024 1 1) (utc 2024 1 20) = 20"
    by code_simp
  moreover have "hoursWithin dailyEntries (utc 2024 1 3) (utc 2024 1 20) = 18"
    by code_simp
  ultimately show ?thesis
    using t ws len by auto
qed

text \<open>
  C2 (as stated, refuted). With the start (21 January 2024) after the end (20 January), both
  passes return the empty list, not a single bucket: the first round of each loop leaves
  through its \<^verbatim>\<open>break\<close>.
\<close>

theorem start_after_end_no_bucket:
  "weeklyData 0 (utc 2024 1 25) [entry (utc 2024 1 20) 30 ''completed'']
       (Some (utc 2024 1 21)) (Some (utc 2024 1 20)) = Inr []
   \<and> monthlyData 0 (utc 2024 1 25) [entry (utc 2024 1 20) 30 ''completed'']
       (Some (utc 2024 1 21)) (Some (utc 2024 1 20)) = Inr []"
proof -
  have "utc 2024 1 20 < utc 2024 1 21"
    by (simp add: utc_def daysFromCivil_def msPerDay_def)
  then show ?thesis
    by (simp only: weeklyData_empty monthlyData_empty)
qed

text \<open>
  C2 (amended). When \<open>range.start\<close> is after \<open>range.end\<close>, the weekly and the monthly pass
  each return the empty sequence, and neither fails.
\<close>

theorem start_after_end_empty:
  assumes "e < s"
  shows "weeklyData z today reports (Some s) (Some e) = Inr []
         \<and> monthlyData z currentDate reports (Some s) (Some e) = Inr []"
  using assms by (simp add: weeklyData_empty monthlyData_empty)

theorem start_after_end_empty_witness:
  "weeklyData 19800000 (utc 2024 3 5) dailyEntries (Some (utc 2024 3 10)) (Some (utc 2024 3 1)) = Inr []
   \<and> monthlyData 19800000 (utc 2024 3 5) dailyEntries (Some (utc 2024 3 10)) (Some (utc 2024 3 1)) = Inr []"
proof -
  have "utc 2024 3 1 < utc 2024 3 10"
    by (simp add: utc_def daysFromCivil_def msPerDay_def)
  then show ?thesis
    by (rule start_after_end_empty)
qed

text \<open>
  C3. In every round of the weekly and of the monthly loop, \<open>weekTotal\<close> (\<open>monthTotal\<close>) is the
  number of records dated within the bucket and \<open>weekCompleted\<close> (\<open>monthCompleted\<close>) the number
  of those with status \<^verbatim>\<open>completed\<close>; the completion rate pushed is an integer between 0 and
  100, is 0 when the bucket has no record, and otherwise differs from
  \<open>completed / total * 100\<close> by at most one half.
\<close>

theorem completionRate_rounded:
  assumes "weekRounds z today reports startDate endDate = Inr ws"
    and "monthRounds z currentDate reports startDate endDate = Inr ms"
  shows "list_all (weekRateOk z reports) ws \<and> list_all (monthRateOk z reports) ms"
  using weekRounds_rateOk [OF assms(1)] monthRounds_rateOk [OF assms(2)]
  by (simp add: list_all_iff)

theorem completionRate_rounded_witness:
  "\<exists>ws ms. weekRounds 0 (utc 2024 1 20) dailyEntries (Some (utc 2024 1 1)) (Some (utc 2024 1 20)) = Inr ws
      \<and> monthRounds 0 (utc 2024 1 20) dailyEntries (Some (utc 2024 1 1)) (Some (utc 2024 1 20)) = Inr ms
      \<and> length ws = 3 \<and> ms \<noteq> []
      \<and> list_all (weekRateOk 0 dailyEntries) ws \<and> list_all (monthRateOk 0 dailyEntries) ms"
proof -
  from weekRounds_total obtain ws
    where ws: "weekRounds 0 (utc 2024 1 20) dailyEntries (Some (utc 2024 1 1)) (Some (utc 2024 1 20)) = Inr ws"
    by blast
  from monthRounds_total obtain ms
    where ms: "monthRounds 0 (utc 2024 1 20) dailyEntries (Some (utc 2024 1 1)) (Some (utc 2024 1 20)) = Inr ms"
    by blast
  have "utc 2024 1 1 \<le> utc 2024 1 20"
    by (simp add: utc_def daysFromCivil_def msPerDay_def)
  with ms have "ms \<noteq> []"
    by (intro monthRounds_nonempty [OF ms]) simp_all
  moreover have "length ws = 3"
    using weekRounds_bucketCount [OF ws] by (simp add: dailyEntries_bucketCount)
  ultimately show ?thesis
    using ws ms completionRate_rounded [OF ws ms] by blast
qed

text \<open>
  C4 (as stated, refuted). A negative duration is not treated as zero: \<^verbatim>\<open>-60 || 0\<close> is
  \<^verbatim>\<open>-60\<close>, and the week of a single record of -60 minutes totals -1 hour.
\<close>

theorem negative_duration_counted:
  "map_sum id (map totalHours)
     (weeklyData 0 (utc 2024 1 7) [entry (utc 2024 1 3) (- 60) ''completed'']
        (Some (utc 2024 1 1)) (Some (utc 2024 1 7))) = Inr [- 1]"
proof -
  have "map (\<lambda>k. toFixed 1 (hoursWithin [entry (utc 2024 1 3) (- 60) ''completed'']
                                (bucketStart 0 (utc 2024 1 1) k)
                                (bucketEnd 0 (utc 2024 1 7) (utc 2024 1 1) (utc 2024 1 7) k)))
              [0..<bucketCount (utc 2024 1 7) (utc 2024 1 1) (utc 2024 1 7)] = [- 1]"
    by code_simp
  then show ?thesis
    by (simp only: weeklyData_totalHours)
qed

text \<open>
  C4 (amended). A record whose \<^verbatim>\<open>time_spent\<close> is missing (\<^verbatim>\<open>null\<close> or absent) is treated by
  the weekly and the monthly pass exactly as the same record with a duration of zero: bucket
  totals, daily breakdowns and counts are the same. (A negative duration is added as it is.)
\<close>

theorem missing_duration_is_zero:
  assumes "time_spent r = Undefined \<or> time_spent r = Null"
  shows "weekRounds z today (xs @ r # ys) startDate endDate
           = weekRounds z today (xs @ r\<lparr>time_spent := Number 0\<rparr> # ys) startDate endDate
         \<and> monthRounds z currentDate (xs @ r # ys) startDate endDate
           = monthRounds z currentDate (xs @ r\<lparr>time_spent := Number 0\<rparr> # ys) startDate endDate
         \<and> weeklyData z today (xs @ r # ys) startDate endDate
           = weeklyData z today (xs @ r\<lparr>time_spent := Number 0\<rparr> # ys) startDate endDate
         \<and> monthlyData z currentDate (xs @ r # ys) startDate endDate
           = monthlyData z currentDate (xs @ r\<lparr>time_spent := Number 0\<rparr> # ys) startDate endDate"
proof -
  from assms have o: "or0 (time_spent r) = or0 (time_spent (r\<lparr>time_spent := Number 0\<rparr>))"
    by auto
  have d: "date r = date (r\<lparr>time_spent := Number 0\<rparr>)"
    and s: "status r = status (r\<lparr>time_spent := Number 0\<rparr>)"
    by simp_all
  note rounds_replace [OF d s o]
  then show ?thesis
    by (simp add: weeklyData_def monthlyData_def)
qed

theorem missing_duration_is_zero_witness:
  "weeklyData 0 (utc 2024 1 7)
     [entry (utc 2024 1 2) 90 ''completed'', (entry (utc 2024 1 3) 45 ''pending'')\<lparr>time_spent := Null\<rparr>]
     (Some (utc 2024 1 1)) (Some (utc 2024 1 7))
   = weeklyData 0 (utc 2024 1 7)
     [entry (utc 2024 1 2) 90 ''completed'', entry (utc 2024 1 3) 0 ''pending'']
     (Some (utc 2024 1 1)) (Some (utc 2024 1 7))
   \<and> map_sum id (map totalHours)
       (weeklyData 0 (utc 2024 1 7)
          [entry (utc 2024 1 2) 90 ''completed'', (entry (utc 2024 1 3) 45 ''pending'')\<lparr>time_spent := Null\<rparr>]
          (Some (utc 2024 1 1)) (Some (utc 2024 1 7))) = Inr [3 / 2]"
proof
  let ?r = "(entry (utc 2024 1 3) 45 ''pending'')\<lparr>time_spent := Null\<rparr>"
  have "time_spent ?r = Undefined \<or> time_spent ?r = Null" by simp
  from missing_duration_is_zero [OF this, of 0 "utc 2024 1 7" "[entry (utc 2024 1 2) 90 ''completed'']" "[]"]
  show "weeklyData 0 (utc 2024 1 7) [entry (utc 2024 1 2) 90 ''completed'', ?r]
          (Some (utc 2024 1 1)) (Some (utc 2024 1 7))
        = weeklyData 0 (utc 2024 1 7)
          [entry (utc 2024 1 2) 90 ''completed'', entry (utc 2024 1 3) 0 ''pending'']
          (Some (utc 2024 1 1)) (Some (utc 2024 1 7))"
    by (simp add: entry_def)
  have "map (\<lambda>k. toFixed 1 (hoursWithin [entry (utc 2024 1 2) 90 ''completed'', ?r]
                                (bucketStart 0 (utc 2024 1 1) k)
                                (bucketEnd 0 (utc 2024 1 7) (utc 2024 1 1) (utc 2024 1 7) k)))
              [0..<bucketCount (utc 2024 1 7) (utc 2024 1 1) (utc 2024 1 7)] = [3 / 2]"
    by code_simp
  then show "map_sum id (map totalHours)
       (weeklyData 0 (utc 2024 1 7) [entry (utc 2024 1 2) 90 ''completed'', ?r]
          (Some (utc 2024 1 1)) (Some (utc 2024 1 7))) = Inr [3 / 2]"
    by (simp only: weeklyData_totalHours)
qed

text \<open>
  C5. The spec's example, one record whose date does not parse, for an internship from 1
  to 7 January 2024 read on 7 January on a host at UTC. The day count of line 124 calls
  \<^verbatim>\<open>toISOString\<close> on the \<^verbatim>\<open>Invalid Date\<close>, which raises \<^verbatim>\<open>RangeError\<close>: \<^verbatim>\<open>fetchReportStats\<close> ends in
  its \<^verbatim>\<open>catch\<close> block and computes no bucket at all. The weekly and the monthly pass by
  themselves skip the record: they return what they return for no record, a week of 0
  hours.
\<close>

theorem bad_date_raises:
  "calculateDayStreak
     [\<lparr>date = None, time_spent = Number 30, status = Some ''completed'', tags = None, skills_tools = None\<rparr>]
     = Inl RangeError
   \<and> fetchReportStats 0 (utc 2024 1 7) (utc 2024 1 7) (Some (utc 2024 1 1)) (Some (utc 2024 1 7))
       [\<lparr>date = None, time_spent = Number 30, status = Some ''completed'', tags = None, skills_tools = None\<rparr>]
     = Inl RangeError
   \<and> weeklyData 0 (utc 2024 1 7)
       [\<lparr>date = None, time_spent = Number 30, status = Some ''completed'', tags = None, skills_tools = None\<rparr>]
       (Some (utc 2024 1 1)) (Some (utc 2024 1 7))
     = weeklyData 0 (utc 2024 1 7) [] (Some (utc 2024 1 1)) (Some (utc 2024 1 7))
   \<and> monthlyData 0 (utc 2024 1 7)
       [\<lparr>date = None, time_spent = Number 30, status = Some ''completed'', tags = None, skills_tools = None\<rparr>]
       (Some (utc 2024 1 1)) (Some (utc 2024 1 7))
     = monthlyData 0 (utc 2024 1 7) [] (Some (utc 2024 1 1)) (Some (utc 2024 1 7))
   \<and> map_sum id (map totalHours)
       (weeklyData 0 (utc 2024 1 7)
         [\<lparr>date = None, time_spent = Number 30, status = Some ''completed'', tags = None, skills_tools = None\<rparr>]
         (Some (utc 2024 1 1)) (Some (utc 2024 1 7))) = Inr [0]"
proof (intro conjI)
  let ?r = "\<lparr>date = None, time_spent = Number 30, status = Some ''completed'', tags = None,
             skills_tools = None\<rparr>"
  have r: "date ?r = None" by simp
  show "calculateDayStreak [?r] = Inl RangeError"
    by (simp add: calculateDayStreak_def)
  show "fetchReportStats 0 (utc 2024 1 7) (utc 2024 1 7) (Some (utc 2024 1 1)) (Some (utc 2024 1 7)) [?r]
          = Inl RangeError"
    using r by (intro fetchReportStats_invalid_date [of ?r]) simp_all
  from passes_skip_invalid_date [OF r, of 0 "utc 2024 1 7" "[]" "[]"]
  show "weeklyData 0 (utc 2024 1 7) [?r] (Some (utc 2024 1 1)) (Some (utc 2024 1 7))
        = weeklyData 0 (utc 2024 1 7) [] (Some (utc 2024 1 1)) (Some (utc 2024 1 7))"
    by simp
  from passes_skip_invalid_date [OF r, of 0 _ "[]" "[]" _ _ "utc 2024 1 7"]
  show "monthlyData 0 (utc 2024 1 7) [?r] (Some (utc 2024 1 1)) (Some (utc 2024 1 7))
        = monthlyData 0 (utc 2024 1 7) [] (Some (utc 2024 1 1)) (Some (utc 2024 1 7))"
    by simp
  have "map (\<lambda>k. toFixed 1 (hoursWithin [?r] (bucketStart 0 (utc 2024 1 1) k)
                                (bucketEnd 0 (utc 2024 1 7) (utc 2024 1 1) (utc 2024 1 7) k)))
              [0..<bucketCount (utc 2024 1 7) (utc 2024 1 1) (utc 2024 1 7)] = [0]"
    by code_simp
  then show "map_sum id (map totalHours)
       (weeklyData 0 (utc 2024 1 7) [?r] (Some (utc 2024 1 1)) (Some (utc 2024 1 7))) = Inr [0]"
    by (simp only: weeklyData_totalHours)
qed

text \<open>
  C6 (as stated, refuted). The tally does not skip empty labels: the field \<^verbatim>\<open>"api, "\<close>
  splits into \<^verbatim>\<open>"api"\<close> and \<^verbatim>\<open>" "\<close>, the second trims to the empty label, and the empty
  label is counted.
\<close>

theorem tally_counts_empty_label:
  "entries (tallyTags [\<lparr>date = Some (utc 2024 1 2), time_spent = Number 60,
                        status = Some ''completed'', tags = Some (str ''api, ''),
                        skills_tools = None\<rparr>])
     = [(str ''api'', PNumber 1), (str '''', PNumber 1)]"
  by code_simp

text \<open>
  C6 (amended). A field that is present and not empty is split on commas and each piece
  trimmed of white space; every resulting label, the empty one included, is tallied. For a
  label that does not name a member of \<^verbatim>\<open>Object.prototype\<close>, the mapping holds the number of
  its occurrences among all pieces of all records, and no entry when there is none.
  \<^verbatim>\<open>Object.entries\<close> lists the labels that are array indices first, in numeric order, then
  the other labels in order of first occurrence (\<^verbatim>\<open>__proto__\<close> is never a key). For the tags
  \<^verbatim>\<open>"api, testing"\<close> and \<^verbatim>\<open>"api, design"\<close> the tally is api 2, testing 1, design 1, in that
  order.
\<close>

theorem tally_counts_every_label:
  "(\<not> inheritedName l \<longrightarrow>
      map_of (entries (tallyTags reports)) l
        = (if l \<in> set (labels tags reports)
           then Some (PNumber (count_list (labels tags reports) l)) else None))
   \<and> map fst (entries (tallyTags reports)) = tallyKeys (labels tags reports)
   \<and> (\<not> inheritedName l \<longrightarrow>
      map_of (entries (tallyTools reports)) l
        = (if l \<in> set (labels skills_tools reports)
           then Some (PNumber (count_list (labels skills_tools reports) l)) else None))
   \<and> map fst (entries (tallyTools reports)) = tallyKeys (labels skills_tools reports)
   \<and> entries (tallyTags [\<lparr>date = Some (utc 2024 1 2), time_spent = Number 60,
                          status = Some ''completed'', tags = Some (str ''api, testing''),
                          skills_tools = None\<rparr>,
                        \<lparr>date = Some (utc 2024 1 3), time_spent = Number 60,
                          status = Some ''completed'', tags = Some (str ''api, design''),
                          skills_tools = None\<rparr>])
       = [(str ''api'', PNumber 2), (str ''testing'', PNumber 1), (str ''design'', PNumber 1)]"
proof (intro conjI impI)
  assume "\<not> inheritedName l"
  then show "map_of (entries (tallyTags reports)) l
        = (if l \<in> set (labels tags reports)
           then Some (PNumber (count_list (labels tags reports) l)) else None)"
    unfolding tallyTags_def by (rule tally_value)
next
  show "map fst (entries (tallyTags reports)) = tallyKeys (labels tags reports)"
    unfolding tallyTags_def tallyKeys_def Let_def by (rule tally_keys)
next
  assume "\<not> inheritedName l"
  then show "map_of (entries (tallyTools reports)) l
        = (if l \<in> set (labels skills_tools reports)
           then Some (PNumber (count_list (labels skills_tools reports) l)) else None)"
    unfolding tallyTools_def by (rule tally_value)
next
  show "map fst (entries (tallyTools reports)) = tallyKeys (labels skills_tools reports)"
    unfolding tallyTools_def tallyKeys_def Let_def by (rule tally_keys)
next
  show "entries (tallyTags [\<lparr>date = Some (utc 2024 1 2), time_spent = Number 60,
                          status = Some ''completed'', tags = Some (str ''api, testing''),
                          skills_tools = None\<rparr>,
                        \<lparr>date = Some (utc 2024 1 3), time_spent = Number 60,
                          status = Some ''completed'', tags = Some (str ''api, design''),
                          skills_tools = None\<rparr>])
       = [(str ''api'', PNumber 2), (str ''testing'', PNumber 1), (str ''design'', PNumber 1)]"
    by code_simp
qed

theorem tally_counts_every_label_witness:
  "map_of (entries (tallyTags
      [\<lparr>date = Some (utc 2024 1 2), time_spent = Number 60, status = Some ''completed'',
        tags = Some (str ''api, testing''), skills_tools = Some (str ''git'')\<rparr>,
       \<lparr>date = Some (utc 2024 1 3), time_spent = Number 60, status = Some ''completed'',
        tags = Some (str ''api, design''), skills_tools = Some (str ''git, 7zip'')\<rparr>]))
     (str ''api'') = Some (PNumber 2)
   \<and> map_of (entries (tallyTools
      [\<lparr>date = Some (utc 2024 1 2), time_spent = Number 60, status = Some ''completed'',
        tags = Some (str ''api, testing''), skills_tools = Some (str ''git'')\<rparr>,
       \<lparr>date = Some (utc 2024 1 3), time_spent = Number 60, status = Some ''completed'',
        tags = Some (str ''api, design''), skills_tools = Some (str ''git, 7zip'')\<rparr>]))
     (str ''7zip'') = Some (PNumber 1)"
proof
  let ?rs = "[\<lparr>date = Some (utc 2024 1 2), time_spent = Number 60, status = Some ''completed'',
        tags = Some (str ''api, testing''), skills_tools = Some (str ''git'')\<rparr>,
       \<lparr>date = Some (utc 2024 1 3), time_spent = Number 60, status = Some ''completed'',
        tags = Some (str ''api, design''), skills_tools = Some (str ''git, 7zip'')\<rparr>]"
  have a: "\<not> inheritedName (str ''api'')" and z: "\<not> inheritedName (str ''7zip'')"
    by code_simp+
  have la: "labels tags ?rs = [str ''api'', str ''testing'', str ''api'', str ''design'']"
    and lz: "labels skills_tools ?rs = [str ''git'', str ''git'', str ''7zip'']"
    by code_simp+
  have ca: "count_list [str ''api'', str ''testing'', str ''api'', str ''design''] (str ''api'') = 2"
    and cz: "count_list [str ''git'', str ''git'', str ''7zip''] (str ''7zip'') = 1"
    by code_simp+
  from tally_counts_every_label [of "str ''api''" ?rs] a
  show "map_of (entries (tallyTags ?rs)) (str ''api'') = Some (PNumber 2)"
    unfolding la ca by simp
  from tally_counts_every_label [of "str ''7zip''" ?rs] z
  show "map_of (entries (tallyTools ?rs)) (str ''7zip'') = Some (PNumber 1)"
    unfolding lz cz by simp
qed

text \<open>
  C7 (as stated, refuted). The example fixes the dates but not the host's time zone, and the
  result depends on it. Five hours west of UTC, midnight UTC of 1 January 2024 is the
  evening of Sunday 31 December: the first week is 25-31 December and holds one record, the
  three weeks total 60, 420 and 420 minutes, and the records of 16-20 January are in no
  bucket.
\<close>

theorem example_west_of_utc:
  "map_sum id (map totalMinutes)
     (weeklyData (- 18000000) (utc 2024 1 20) dailyEntries (Some (utc 2024 1 1)) (Some (utc 2024 1 20)))
   = Inr [60, 420, 420]"
proof -
  have "map (\<lambda>k. toFixed 1 (hoursWithin dailyEntries (bucketStart (- 18000000) (utc 2024 1 1) k)
                                (bucketEnd (- 18000000) (utc 2024 1 20) (utc 2024 1 1) (utc 2024 1 20) k)) * 60)
              [0..<bucketCount (utc 2024 1 20) (utc 2024 1 1) (utc 2024 1 20)] = [60, 420, 420]"
    by code_simp
  then show ?thesis
    by (simp only: weeklyData_totalMinutes)
qed

text \<open>
  C7 (amended). In a host on UTC, for the range 2024-01-01 to 2024-01-20 with today
  2024-01-20 and one completed record of 60 minutes per day, the weekly pass produces exactly
  three buckets, 1-7, 8-14 and 15-20 January; the first two total 420 minutes at 100 per
  cent, and the third totals 360 minutes, 60 for each of its six days from Monday 15 through
  20 January.
\<close>

theorem example_three_weeks:
  "map_sum id (map totalMinutes)
     (weeklyData 0 (utc 2024 1 20) dailyEntries (Some (utc 2024 1 1)) (Some (utc 2024 1 20)))
   = Inr [420, 420, 60 * 6]
   \<and> map_sum id (map completionRate)
     (weeklyData 0 (utc 2024 1 20) dailyEntries (Some (utc 2024 1 1)) (Some (utc 2024 1 20)))
   = Inr [100, 100, 100]
   \<and> map_sum id (map weekStart)
     (weeklyData 0 (utc 2024 1 20) dailyEntries (Some (utc 2024 1 1)) (Some (utc 2024 1 20)))
   = Inr [''Jan 01'', ''Jan 08'', ''Jan 15'']
   \<and> map_sum id (map weekEnd)
     (weeklyData 0 (utc 2024 1 20) dailyEntries (Some (utc 2024 1 1)) (Some (utc 2024 1 20)))
   = Inr [''Jan 07'', ''Jan 14'', ''Jan 20'']
   \<and> map_sum id (map (\<lambda>w. map dayDate (days w)))
     (weeklyData 0 (utc 2024 1 20) dailyEntries (Some (utc 2024 1 1)) (Some (utc 2024 1 20)))
   = Inr [map (utc 2024 1) [1..7], map (utc 2024 1) [8..14], map (utc 2024 1) [15..20]]"
proof (intro conjI)
  have "map (\<lambda>k. toFixed 1 (hoursWithin dailyEntries (bucketStart 0 (utc 2024 1 1) k)
                                (bucketEnd 0 (utc 2024 1 20) (utc 2024 1 1) (utc 2024 1 20) k)) * 60)
              [0..<bucketCount (utc 2024 1 20) (utc 2024 1 1) (utc 2024 1 20)] = [420, 420, 60 * 6]"
    by code_simp
  then show "map_sum id (map totalMinutes)
     (weeklyData 0 (utc 2024 1 20) dailyEntries (Some (utc 2024 1 1)) (Some (utc 2024 1 20)))
   = Inr [420, 420, 60 * 6]"
    by (simp only: weeklyData_totalMinutes)
  have "map (\<lambda>k. toFixed 0 (percent
                 (completedWithin dailyEntries (bucketStart 0 (utc 2024 1 1) k)
                                (bucketEnd 0 (utc 2024 1 20) (utc 2024 1 1) (utc 2024 1 20) k))
                 (countWithin dailyEntries (bucketStart 0 (utc 2024 1 1) k)
                                (bucketEnd 0 (utc 2024 1 20) (utc 2024 1 1) (utc 2024 1 20) k))))
              [0..<bucketCount (utc 2024 1 20) (utc 2024 1 1) (utc 2024 1 20)] = [100, 100, 100]"
    by code_simp
  then show "map_sum id (map completionRate)
     (weeklyData 0 (utc 2024 1 20) dailyEntries (Some (utc 2024 1 1)) (Some (utc 2024 1 20)))
   = Inr [100, 100, 100]"
    by (simp only: weeklyData_completionRate)
  have "map (\<lambda>k. format_MMM_dd 0 (bucketStart 0 (utc 2024 1 1) k))
              [0..<bucketCount (utc 2024 1 20) (utc 2024 1 1) (utc 2024 1 20)]
          = [''Jan 01'', ''Jan 08'', ''Jan 15'']"
    by code_simp
  then show "map_sum id (map weekStart)
     (weeklyData 0 (utc 2024 1 20) dailyEntries (Some (utc 2024 1 1)) (Some (utc 2024 1 20)))
   = Inr [''Jan 01'', ''Jan 08'', ''Jan 15'']"
    by (simp only: weeklyData_weekStart)
  have "map (\<lambda>k. format_MMM_dd 0 (bucketEnd 0 (utc 2024 1 20) (utc 2024 1 1) (utc 2024 1 20) k))
              [0..<bucketCount (utc 2024 1 20) (utc 2024 1 1) (utc 2024 1 20)]
          = [''Jan 07'', ''Jan 14'', ''Jan 20'']"
    by code_simp
  then show "map_sum id (map weekEnd)
     (weeklyData 0 (utc 2024 1 20) dailyEntries (Some (utc 2024 1 1)) (Some (utc 2024 1 20)))
   = Inr [''Jan 07'', ''Jan 14'', ''Jan 20'']"
    by (simp only: weeklyData_weekEnd)
  have "map (\<lambda>k. daysLoop 0 (bucketStart 0 (utc 2024 1 1) k)
                     (bucketEnd 0 (utc 2024 1 20) (utc 2024 1 1) (utc 2024 1 20) k))
              [0..<bucketCount (utc 2024 1 20) (utc 2024 1 1) (utc 2024 1 20)]
          = [map (utc 2024 1) [1..7], map (utc 2024 1) [8..14], map (utc 2024 1) [15..20]]"
    by code_simp
  then show "map_sum id (map (\<lambda>w. map dayDate (days w)))
     (weeklyData 0 (utc 2024 1 20) dailyEntries (Some (utc 2024 1 1)) (Some (utc 2024 1 20)))
   = Inr [map (utc 2024 1) [1..7], map (utc 2024 1) [8..14], map (utc 2024 1) [15..20]]"
    by (simp only: weeklyData_dayDates)
qed

text \<open>
  C8. The weekly loop produces its buckets in ascending order: bucket \<open>k\<close> starts at local
  midnight of the Monday \<open>k\<close> weeks after the Monday of the week of \<open>range.start\<close>, and
  ends at the last millisecond of the following Sunday or at the effective end, whichever
  is earlier. Every bucket but the last spans the full week (seven days in its daily
  breakdown) and the next bucket starts at the millisecond after its end, so the buckets are
  contiguous and no two overlap.
\<close>

theorem weekly_buckets_contiguous:
  assumes "weekRounds z today reports (Some s) (Some e) = Inr ws" and "k < length ws"
  shows "getDay z (weekStartV (ws ! k)) = 1
         \<and> startOfDay z (weekStartV (ws ! k)) = weekStartV (ws ! k)
         \<and> weekStartV (ws ! k) = startOfWeek z s + int k * (7 * msPerDay)
         \<and> weekStartV (ws ! k) \<le> adjustedWeekEnd (ws ! k)
         \<and> adjustedWeekEnd (ws ! k) = min (weekStartV (ws ! k) + 7 * msPerDay - 1) (min today e)
         \<and> (Suc k < length ws \<longrightarrow>
               adjustedWeekEnd (ws ! k) = weekStartV (ws ! k) + 7 * msPerDay - 1
               \<and> weekStartV (ws ! Suc k) = adjustedWeekEnd (ws ! k) + 1
               \<and> length (days (weekPushed z (ws ! k))) = 7)
         \<and> (\<forall>j<k. adjustedWeekEnd (ws ! j) < weekStartV (ws ! k))"
proof (intro conjI impI allI)
  note v = weekRounds_nth [OF assms] and b = weekRounds_bucket [OF assms]
  show "getDay z (weekStartV (ws ! k)) = 1"
    by (simp add: b(1) bucketStart_startOfWeek getDay_startOfWeek)
  show "startOfDay z (weekStartV (ws ! k)) = weekStartV (ws ! k)"
    by (simp add: b(1) bucketStart_startOfWeek startOfDay_startOfWeek)
  show "weekStartV (ws ! k) = startOfWeek z s + int k * (7 * msPerDay)"
    by (rule v(1))
  show "weekStartV (ws ! k) \<le> adjustedWeekEnd (ws ! k)"
    by (rule v(3))
  show "adjustedWeekEnd (ws ! k) = min (weekStartV (ws ! k) + 7 * msPerDay - 1) (min today e)"
    by (rule v(2))
next
  assume n: "Suc k < length ws"
  note b = weekRounds_bucket [OF assms] and b' = weekRounds_bucket [OF assms(1) n]
    and v' = weekRounds_nth [OF assms(1) n]
  have "weekStartV (ws ! Suc k) \<le> min today e"
    using v'(2) v'(3) by simp
  then have "bucketStart z s k + 7 * msPerDay - 1 \<le> min today e"
    by (simp add: b'(1) bucketStart_Suc)
  then show full: "adjustedWeekEnd (ws ! k) = weekStartV (ws ! k) + 7 * msPerDay - 1"
    by (simp add: b(1) b(2) bucketEnd_def)
  show "weekStartV (ws ! Suc k) = adjustedWeekEnd (ws ! k) + 1"
    by (simp add: full b(1) b'(1) bucketStart_Suc)
  have "map dayDate (daysData (ws ! k))
          = daysLoop z (startOfWeek z (addWeeks s (int k)))
              (startOfWeek z (addWeeks s (int k)) + 7 * msPerDay - 1)"
    using b(6) full by (simp add: b(1) b(2) [symmetric] bucketStart_startOfWeek)
  then have "length (map dayDate (daysData (ws ! k))) = 7"
    by (simp only: length_daysLoop_week)
  then show "length (days (weekPushed z (ws ! k))) = 7"
    by (simp add: weekPushed_def Let_def)
next
  fix j
  assume j: "j < k"
  with assms(2) have jl: "j < length ws" by simp
  note bj = weekRounds_bucket [OF assms(1) jl] and bk = weekRounds_bucket [OF assms]
  have "adjustedWeekEnd (ws ! j) \<le> bucketStart z s j + 7 * msPerDay - 1"
    by (simp add: bj(2) bucketEnd_def)
  also have "\<dots> < bucketStart z s (Suc j)"
    by (simp add: bucketStart_Suc)
  also have "\<dots> \<le> bucketStart z s k"
    using j by (intro bucketStart_mono) simp
  finally show "adjustedWeekEnd (ws ! j) < weekStartV (ws ! k)"
    by (simp add: bk(1))
qed

theorem weekly_buckets_contiguous_witness:
  "\<exists>ws. weekRounds 0 (utc 2024 1 20) dailyEntries (Some (utc 2024 1 3)) (Some (utc 2024 1 20)) = Inr ws
      \<and> length ws = 3
      \<and> getDay 0 (weekStartV (ws ! 1)) = 1
      \<and> weekStartV (ws ! 1) = utc 2024 1 8
      \<and> adjustedWeekEnd (ws ! 1) = weekStartV (ws ! 1) + 7 * msPerDay - 1
      \<and> weekStartV (ws ! Suc 1) = adjustedWeekEnd (ws ! 1) + 1
      \<and> length (days (weekPushed 0 (ws ! 1))) = 7
      \<and> adjustedWeekEnd (ws ! 0) < weekStartV (ws ! 1)"
proof -
  from weekRounds_total obtain ws
    where ws: "weekRounds 0 (utc 2024 1 20) dailyEntries (Some (utc 2024 1 3)) (Some (utc 2024 1 20)) = Inr ws"
    by blast
  have "bucketCount (utc 2024 1 20) (utc 2024 1 3) (utc 2024 1 20) = 3"
    by code_simp
  with weekRounds_bucketCount [OF ws] have len: "length ws = 3" by simp
  then have k: "1 < length ws" and k': "Suc 1 < length ws" by simp_all
  note t = weekly_buckets_contiguous [OF ws k]
  have a: "startOfWeek 0 (utc 2024 1 3) + int 1 * (7 * msPerDay) = utc 2024 1 8"
    by code_simp
  from t have "getDay 0 (weekStartV (ws ! 1)) = 1"
    by blast
  moreover from t have "weekStartV (ws ! 1) = startOfWeek 0 (utc 2024 1 3) + int 1 * (7 * msPerDay)"
    by blast
  then have "weekStartV (ws ! 1) = utc 2024 1 8"
    by (simp only: a)
  moreover from t k' have "adjustedWeekEnd (ws ! 1) = weekStartV (ws ! 1) + 7 * msPerDay - 1
      \<and> weekStartV (ws ! Suc 1) = adjustedWeekEnd (ws ! 1) + 1
      \<and> length (days (weekPushed 0 (ws ! 1))) = 7"
    by blast
  moreover from t have "\<forall>j<1. adjustedWeekEnd (ws ! j) < weekStartV (ws ! 1)"
    by blast
  then have "adjustedWeekEnd (ws ! 0) < weekStartV (ws ! 1)"
    by simp
  ultimately show ?thesis
    using ws len by blast
qed

text \<open>
  C9. The in-progress count is the number of records whose status is one of the three
  spellings. Every record falls in exactly one of completed, pending, in progress and
  "other", so the three counts add up to \<open>totalEntries\<close> less the records of other status;
  a record with status \<^verbatim>\<open>blocked\<close> is counted in \<open>totalEntries\<close> and in none of the three.
\<close>

theorem inProgress_spellings_and_gap:
  "inProgress reports = length (filter isInProgress reports)
   \<and> completed reports + pending reports + inProgress reports
        + length (filter otherStatus reports) = totalEntries reports
   \<and> (let r = \<lparr>date = None, time_spent = Null, status = Some ''blocked'', tags = None,
                   skills_tools = None\<rparr>
        in otherStatus r \<and> totalEntries [r] = 1 \<and> completed [r] = 0 \<and> pending [r] = 0
             \<and> inProgress [r] = 0
             \<and> completed [r] + pending [r] + inProgress [r] < totalEntries [r])"
proof (intro conjI)
  show "inProgress reports = length (filter isInProgress reports)"
    by (induction reports) (simp_all add: inProgress_def isInProgress_def)
  show "completed reports + pending reports + inProgress reports
        + length (filter otherStatus reports) = totalEntries reports"
    by (induction reports)
       (auto simp: completed_def pending_def inProgress_def totalEntries_def otherStatus_def)
  show "let r = \<lparr>date = None, time_spent = Null, status = Some ''blocked'', tags = None,
                   skills_tools = None\<rparr>
        in otherStatus r \<and> totalEntries [r] = 1 \<and> completed [r] = 0 \<and> pending [r] = 0
             \<and> inProgress [r] = 0
             \<and> completed [r] + pending [r] + inProgress [r] < totalEntries [r]"
    by (simp add: completed_def pending_def inProgress_def totalEntries_def otherStatus_def)
qed




end
